theory Spec2Isabelle
  imports Complex_Main
begin

section \<open>The camera path of \<^verbatim>\<open>with-animation.py\<close>\<close>

text \<open>
  The script computes a camera path over a map: a smoothstep easing curve, a bounding
  box per country forced to a 9:16 ratio, zoom phases that interpolate between two
  boxes, and hold phases that shake the camera by random offsets.

  Numbers are modelled as \<^typ>\<open>real\<close>: the arithmetic of the source is read exactly,
  without the rounding of binary floating point. A viewport is the four-element list
  \<^verbatim>\<open>[min-x, max-x, min-y, max-y]\<close> the source passes around. The one value of the
  source that is not a number, the NaN bounds of a name the map does not have, is kept
  apart: a region is a list of numbers or four NaNs.
\<close>

subsection \<open>Configuration\<close>

type_synonym bounds = "real list"

definition ZOOM_FRAMES :: nat where
  "ZOOM_FRAMES = 25"

definition HOLD_FRAMES :: nat where
  "HOLD_FRAMES = 45"

definition WORLD_BOUNDS :: bounds where
  "WORLD_BOUNDS = [-170, 170, -55, 85]"

definition DATA_COUNTRIES :: "string list" where
  "DATA_COUNTRIES =
     [''United States of America'', ''Russia'', ''Brazil'', ''Australia'', ''India'']"

subsection \<open>Easing\<close>

definition ease_in_out :: "real \<Rightarrow> real" where
  "ease_in_out t = t * t * (3 - 2 * t)"

subsection \<open>Bounds of a target\<close>

text \<open>
  The map data is an external collaborator. What \<^verbatim>\<open>get_target_bounds\<close> reads from it
  is \<^verbatim>\<open>gdf[gdf.name == country_name].total_bounds\<close>, unpacked as
  \<^verbatim>\<open>minx, miny, maxx, maxy\<close> (lines 47-48). The lookup is a parameter with three
  outcomes:
  \<^item> \<open>Found (minx, miny, maxx, maxy)\<close>: rows of the map carry the name, and these are
    their total bounds;
  \<^item> \<open>No_rows\<close>: no row carries the name. The selection is empty, its total bounds are
    the array of four NaNs, and the unpacking succeeds: nothing is raised;
  \<^item> \<open>Lookup_error\<close>: the two lines raise \<^verbatim>\<open>ValueError\<close>, the case the source catches
    on lines 49-50. A name that the map lacks does not come here.
\<close>

type_synonym total_bounds = "real \<times> real \<times> real \<times> real"

datatype lookup = Found total_bounds | No_rows | Lookup_error

type_synonym gdf = "string \<Rightarrow> lookup"

text \<open>
  What \<^verbatim>\<open>get_target_bounds\<close> returns: a list of four numbers, or the list of four NaNs.
\<close>

datatype region = Finite bounds | NaNs

text \<open>
  The values unpacked from \<^verbatim>\<open>total_bounds\<close> are numpy floats, whose division by zero
  does not raise: \<^verbatim>\<open>w / h\<close> is \<^verbatim>\<open>inf\<close> for \<^verbatim>\<open>w > 0\<close>, and \<^verbatim>\<open>-inf\<close> or \<^verbatim>\<open>nan\<close>
  otherwise, so the comparison with the target ratio holds exactly when \<^verbatim>\<open>w > 0\<close>.
  The test of line 62 is written out accordingly, HOL's \<open>w / 0\<close> being \<open>0\<close>.
\<close>

definition wider_than :: "real \<Rightarrow> real \<Rightarrow> real \<Rightarrow> bool" where
  "wider_than w h target_ratio = (if h = 0 then 0 < w else target_ratio < w / h)"

text \<open>
  With four NaNs unpacked, lines 53-58 give NaN for \<^verbatim>\<open>cx\<close>, \<^verbatim>\<open>cy\<close>, \<^verbatim>\<open>w\<close> and \<^verbatim>\<open>h\<close>;
  the comparison of line 62 is false, line 65 sets \<^verbatim>\<open>w = h * target_ratio\<close>, NaN again,
  and line 67 returns four NaNs. The \<^verbatim>\<open>except\<close> branch is not taken.
\<close>

definition get_target_bounds :: "gdf \<Rightarrow> string \<Rightarrow> real \<Rightarrow> region" where
  "get_target_bounds gdf country_name pad =
     (if country_name = ''World'' then Finite WORLD_BOUNDS
      else
        case gdf country_name of
          Lookup_error \<Rightarrow> Finite WORLD_BOUNDS
        | No_rows \<Rightarrow> NaNs
        | Found (minx, miny, maxx, maxy) \<Rightarrow>
            let cx = (minx + maxx) / 2;
                cy = (miny + maxy) / 2;
                w = (maxx - minx) + pad;
                h = (maxy - miny) + pad;
                target_ratio = 9 / 16;
                (w, h) = (if wider_than w h target_ratio
                          then (w, w / target_ratio)
                          else (h * target_ratio, h))
            in Finite [cx - w / 2, cx + w / 2, cy - h / 2, cy + h / 2])"

text \<open>
  The region of lines 52-58, before the ratio is forced: the box of width \<open>w\<close> and
  height \<open>h\<close> (padding included) around the centre \<open>(cx, cy)\<close>.
\<close>

definition padded_bounds :: "total_bounds \<Rightarrow> real \<Rightarrow> bounds" where
  "padded_bounds raw pad =
     (case raw of (minx, miny, maxx, maxy) \<Rightarrow>
        let cx = (minx + maxx) / 2;
            cy = (miny + maxy) / 2;
            w = (maxx - minx) + pad;
            h = (maxy - miny) + pad
        in [cx - w / 2, cx + w / 2, cy - h / 2, cy + h / 2])"

text \<open>The raw region in the order of a viewport.\<close>

definition raw_bounds :: "total_bounds \<Rightarrow> bounds" where
  "raw_bounds raw = (case raw of (minx, miny, maxx, maxy) \<Rightarrow> [minx, maxx, miny, maxy])"

subsection \<open>Geometry of a viewport\<close>

definition width :: "bounds \<Rightarrow> real" where
  "width b = b ! 1 - b ! 0"

definition height :: "bounds \<Rightarrow> real" where
  "height b = b ! 3 - b ! 2"

definition centre :: "bounds \<Rightarrow> real \<times> real" where
  "centre b = ((b ! 0 + b ! 1) / 2, (b ! 2 + b ! 3) / 2)"

definition contains :: "bounds \<Rightarrow> bounds \<Rightarrow> bool" where
  "contains outer inner \<longleftrightarrow>
     outer ! 0 \<le> inner ! 0 \<and> inner ! 1 \<le> outer ! 1 \<and>
     outer ! 2 \<le> inner ! 2 \<and> inner ! 3 \<le> outer ! 3"

definition valid_viewport :: "bounds \<Rightarrow> bool" where
  "valid_viewport b \<longleftrightarrow> length b = 4 \<and> b ! 0 < b ! 1 \<and> b ! 2 < b ! 3"

text \<open>No comparison with NaN holds: four NaNs are not a viewport with \<open>max > min\<close>.\<close>

fun valid_region :: "region \<Rightarrow> bool" where
  "valid_region (Finite b) = valid_viewport b"
| "valid_region NaNs = False"

subsection \<open>Rendering a frame\<close>

text \<open>
  \<^verbatim>\<open>render_frame\<close> draws two numbers from Python's global generator, sets the axis
  limits, saves the figure under the current \<^verbatim>\<open>frame_count\<close> and increments it. The
  model keeps what is written: one \<open>frame\<close> per saved file, in order.

  The generator is a parameter: the sequence \<open>rnd\<close> of numbers its \<^verbatim>\<open>random()\<close>
  returns after seeding, of which \<open>rng_pos\<close> counts those consumed.
  \<^verbatim>\<open>random.uniform(a, b)\<close> is \<^verbatim>\<open>a + (b - a) * random()\<close>.

  \<open>render_frame\<close> is the function on bounds that are numbers. On NaN bounds
  \<^verbatim>\<open>ax.set_xlim\<close> (line 133) raises \<^verbatim>\<open>ValueError\<close>, after the two draws and before
  anything is saved or counted; \<open>zoom_to\<close> and \<open>hold_on\<close> below write that case out.
\<close>

record frame =
  frame_no :: nat
  xlim :: "real list"
  ylim :: "real list"
  highlights :: "string list"
  caption :: string

record render_state =
  frame_count :: nat
  rng_pos :: nat
  frames :: "frame list"

definition uniform :: "real \<Rightarrow> real \<Rightarrow> real \<Rightarrow> real" where
  "uniform a b r = a + (b - a) * r"

definition render_frame ::
  "(nat \<Rightarrow> real) \<Rightarrow> bounds \<Rightarrow> string list \<Rightarrow> string \<Rightarrow> real \<Rightarrow> render_state \<Rightarrow> render_state"
where
  "render_frame rnd bounds hl txt shake_intensity st =
     (let sx = uniform (- shake_intensity) shake_intensity (rnd (rng_pos st));
          sy = uniform (- shake_intensity) shake_intensity (rnd (rng_pos st + 1));
          f = \<lparr>frame_no = frame_count st,
               xlim = [bounds ! 0 + sx, bounds ! 1 + sx],
               ylim = [bounds ! 2 + sy, bounds ! 3 + sy],
               highlights = hl,
               caption = txt\<rparr>
      in st\<lparr>frame_count := frame_count st + 1,
            rng_pos := rng_pos st + 2,
            frames := frames st @ [f]\<rparr>)"

text \<open>The viewport a saved frame shows, as a four-element list again.\<close>

definition viewport :: "frame \<Rightarrow> bounds" where
  "viewport f = xlim f @ ylim f"

subsection \<open>The phases\<close>

text \<open>
  Lines 171-174: \<^verbatim>\<open>[current_bounds[j] + (target_bounds[j] - current_bounds[j]) * t
  for j in range(4)]\<close>.
\<close>

definition interp_bounds :: "bounds \<Rightarrow> bounds \<Rightarrow> real \<Rightarrow> bounds" where
  "interp_bounds current_bounds target_bounds t =
     map (\<lambda>j. current_bounds ! j + (target_bounds ! j - current_bounds ! j) * t) [0..<4]"

text \<open>
  The zoom loop (lines 169-175 and 187-193): \<^verbatim>\<open>for i in range(n)\<close>, each frame
  rendered without shake.
\<close>

definition zoom_phase ::
  "(nat \<Rightarrow> real) \<Rightarrow> nat \<Rightarrow> bounds \<Rightarrow> bounds \<Rightarrow> string list \<Rightarrow> string \<Rightarrow> render_state \<Rightarrow> render_state"
where
  "zoom_phase rnd n current_bounds target_bounds hl txt st =
     fold (\<lambda>i s.
             let t = ease_in_out (real i / real n);
                 interp = interp_bounds current_bounds target_bounds t
             in render_frame rnd interp hl txt 0 s)
          [0..<n] st"

text \<open>
  The hold loops (lines 161-162, 181-183 and 197-198): \<^verbatim>\<open>for i in range(n)\<close>, the same
  bounds rendered each time with the given shake intensity.
\<close>

definition hold_phase ::
  "(nat \<Rightarrow> real) \<Rightarrow> nat \<Rightarrow> bounds \<Rightarrow> string list \<Rightarrow> string \<Rightarrow> real \<Rightarrow> render_state \<Rightarrow> render_state"
where
  "hold_phase rnd n bounds hl txt shake_intensity st =
     fold (\<lambda>i s. render_frame rnd bounds hl txt shake_intensity s) [0..<n] st"

subsection \<open>The animation sequence\<close>

text \<open>
  The frame counts and the shake intensity are literals of the source (30, \<^verbatim>\<open>ZOOM_FRAMES\<close>,
  \<^verbatim>\<open>HOLD_FRAMES\<close>, 0.8, 60), and the targets are \<^verbatim>\<open>DATA_COUNTRIES\<close>. The sequence is
  written over a record of them, and \<open>create_video\<close> is the sequence at the source's
  values.
\<close>

record timing =
  intro_frames :: nat
  zoom_frames :: nat
  hold_frames :: nat
  outro_frames :: nat
  shake :: real

text \<open>
  Nothing in \<^verbatim>\<open>create_video\<close> catches the \<^verbatim>\<open>ValueError\<close> of line 133: the run ends
  there. A run is \<open>Done\<close> with its result, or \<open>Raised\<close> with the state at the raise, which
  holds the frames saved until then.
\<close>

datatype 'a run = Done 'a | Raised render_state

definition saved :: "render_state run \<Rightarrow> frame list" where
  "saved r = (case r of Done st \<Rightarrow> frames st | Raised st \<Rightarrow> frames st)"

text \<open>
  The zoom loop between two regions. When one of them is NaN every interpolated bound
  is NaN, also at \<^verbatim>\<open>t = 0\<close> (\<^verbatim>\<open>nan * 0.0\<close> is NaN), so the first call of
  \<^verbatim>\<open>render_frame\<close> raises; a loop of no iteration raises nothing.
\<close>

definition zoom_to ::
  "(nat \<Rightarrow> real) \<Rightarrow> nat \<Rightarrow> region \<Rightarrow> region \<Rightarrow> string list \<Rightarrow> string \<Rightarrow> render_state
   \<Rightarrow> render_state run"
where
  "zoom_to rnd n current_bounds target_bounds hl txt st =
     (case (current_bounds, target_bounds) of
        (Finite a, Finite b) \<Rightarrow> Done (zoom_phase rnd n a b hl txt st)
      | _ \<Rightarrow> if n = 0 then Done st else Raised (st\<lparr>rng_pos := rng_pos st + 2\<rparr>))"

text \<open>The hold loop on a region: on NaN bounds its first call of \<^verbatim>\<open>render_frame\<close> raises.\<close>

definition hold_on ::
  "(nat \<Rightarrow> real) \<Rightarrow> nat \<Rightarrow> region \<Rightarrow> string list \<Rightarrow> string \<Rightarrow> real \<Rightarrow> render_state
   \<Rightarrow> render_state run"
where
  "hold_on rnd n bounds hl txt shake_intensity st =
     (case bounds of
        Finite c \<Rightarrow> Done (hold_phase rnd n c hl txt shake_intensity st)
      | NaNs \<Rightarrow> if n = 0 then Done st else Raised (st\<lparr>rng_pos := rng_pos st + 2\<rparr>))"

text \<open>The body of the loop over the countries (lines 165-183).\<close>

definition country_step ::
  "timing \<Rightarrow> (nat \<Rightarrow> real) \<Rightarrow> gdf \<Rightarrow> string \<Rightarrow>
   region \<times> string list \<times> render_state \<Rightarrow> (region \<times> string list \<times> render_state) run"
where
  "country_step tm rnd world country acc =
     (case acc of (current_bounds, current_highlights, st) \<Rightarrow>
        let target_bounds = get_target_bounds world country 15
        in case zoom_to rnd (zoom_frames tm) current_bounds target_bounds
                  current_highlights (''Scanning: '' @ country) st of
             Raised st \<Rightarrow> Raised st
           | Done st \<Rightarrow>
               let current_highlights = current_highlights @ [country];
                   current_bounds = target_bounds
               in case hold_on rnd (hold_frames tm) current_bounds current_highlights
                         (''TARGET LOCKED: '' @ country) (shake tm) st of
                    Raised st \<Rightarrow> Raised st
                  | Done st \<Rightarrow> Done (current_bounds, current_highlights, st))"

text \<open>\<^verbatim>\<open>for country in DATA_COUNTRIES\<close>: the loop stops at the first raise.\<close>

fun for_countries :: "(string \<Rightarrow> 'a \<Rightarrow> 'a run) \<Rightarrow> string list \<Rightarrow> 'a \<Rightarrow> 'a run" where
  "for_countries body [] acc = Done acc"
| "for_countries body (country # countries) acc =
     (case body country acc of
        Raised st \<Rightarrow> Raised st
      | Done acc \<Rightarrow> for_countries body countries acc)"

definition animation_sequence ::
  "timing \<Rightarrow> (nat \<Rightarrow> real) \<Rightarrow> gdf \<Rightarrow> string list \<Rightarrow> render_state run"
where
  "animation_sequence tm rnd world countries =
     (let st = \<lparr>frame_count = 0, rng_pos = 0, frames = []\<rparr>;
          current_bounds = Finite WORLD_BOUNDS;
          current_highlights = []
      in case hold_on rnd (intro_frames tm) current_bounds [] ''Initiating Scan...'' 0 st of
           Raised st \<Rightarrow> Raised st
         | Done st \<Rightarrow>
      case for_countries (country_step tm rnd world) countries
             (current_bounds, current_highlights, st) of
           Raised st \<Rightarrow> Raised st
         | Done (current_bounds, current_highlights, st) \<Rightarrow>
      let target_bounds = Finite WORLD_BOUNDS
      in case zoom_to rnd (zoom_frames tm) current_bounds target_bounds
                current_highlights ''Global Analysis Complete'' st of
           Raised st \<Rightarrow> Raised st
         | Done st \<Rightarrow>
      let current_bounds = target_bounds
      in hold_on rnd (outro_frames tm) current_bounds current_highlights
           ''The Truth is Out There...'' 0 st)"

definition source_timing :: timing where
  "source_timing =
     \<lparr>intro_frames = 30, zoom_frames = ZOOM_FRAMES, hold_frames = HOLD_FRAMES,
      outro_frames = 60, shake = 8 / 10\<rparr>"

definition create_video :: "(nat \<Rightarrow> real) \<Rightarrow> gdf \<Rightarrow> render_state run" where
  "create_video rnd world = animation_sequence source_timing rnd world DATA_COUNTRIES"

subsection \<open>The planned sequence\<close>

text \<open>
  The sequencing contract in the words of the specification, to be compared with what
  \<open>animation_sequence\<close> saves. A planned frame is a viewport and the shake intensity
  it is rendered with. A zoom phase plans \<open>n\<close> interpolated viewports without shake, a
  hold phase \<open>n\<close> copies of one viewport; the plan is the initial hold on the world
  region, then for each target region a zoom from the current viewport and a hold on
  the region, which becomes the current viewport, then a zoom back to the world region
  and the closing hold.
\<close>

type_synonym planned = "bounds \<times> real"

definition zoom_plan :: "nat \<Rightarrow> bounds \<Rightarrow> bounds \<Rightarrow> planned list" where
  "zoom_plan n a b = map (\<lambda>i. (interp_bounds a b (ease_in_out (real i / real n)), 0)) [0..<n]"

definition hold_plan :: "nat \<Rightarrow> bounds \<Rightarrow> real \<Rightarrow> planned list" where
  "hold_plan n c s = replicate n (c, s)"

fun targets_plan :: "timing \<Rightarrow> bounds \<Rightarrow> bounds list \<Rightarrow> planned list" where
  "targets_plan tm current [] =
     zoom_plan (zoom_frames tm) current WORLD_BOUNDS @ hold_plan (outro_frames tm) WORLD_BOUNDS 0"
| "targets_plan tm current (region # regions) =
     zoom_plan (zoom_frames tm) current region @ hold_plan (hold_frames tm) region (shake tm)
       @ targets_plan tm region regions"

definition timeline :: "timing \<Rightarrow> bounds list \<Rightarrow> planned list" where
  "timeline tm regions =
     hold_plan (intro_frames tm) WORLD_BOUNDS 0 @ targets_plan tm WORLD_BOUNDS regions"

text \<open>
  A planned viewport \<open>b\<close> rendered with intensity \<open>s\<close> when \<open>p\<close> numbers have been drawn:
  \<open>b\<close> moved by the next two draws. Played in order, every planned frame takes two.
\<close>

definition shaken :: "(nat \<Rightarrow> real) \<Rightarrow> real \<Rightarrow> nat \<Rightarrow> bounds \<Rightarrow> bounds" where
  "shaken rnd s p b =
     (let sx = uniform (- s) s (rnd p);
          sy = uniform (- s) s (rnd (p + 1))
      in [b ! 0 + sx, b ! 1 + sx, b ! 2 + sy, b ! 3 + sy])"

fun play :: "(nat \<Rightarrow> real) \<Rightarrow> nat \<Rightarrow> planned list \<Rightarrow> bounds list" where
  "play rnd p [] = []"
| "play rnd p ((b, s) # plan) = shaken rnd s p b # play rnd (p + 2) plan"

text \<open>The frames a phase adds to those saved before it.\<close>

definition new_frames :: "render_state \<Rightarrow> render_state \<Rightarrow> frame list" where
  "new_frames st st' = drop (length (frames st)) (frames st')"

text \<open>The contract of \<^verbatim>\<open>random()\<close>: every number it returns lies in \<open>[0, 1)\<close>.\<close>

definition unit_draws :: "(nat \<Rightarrow> real) \<Rightarrow> bool" where
  "unit_draws rnd \<longleftrightarrow> (\<forall>k. 0 \<le> rnd k \<and> rnd k < 1)"

section \<open>The easing curve\<close>

lemma ease_in_out_diff:
  "ease_in_out b - ease_in_out a = (b - a) * (3 * (a + b) - 2 * (a * a + a * b + b * b))"
  by (simp add: ease_in_out_def algebra_simps)

lemma ease_in_out_slope_nonneg:
  assumes "0 \<le> a" "a \<le> b" "b \<le> (1::real)"
  shows "2 * (a * a + a * b + b * b) \<le> 3 * (a + b)"
proof -
  have a1: "a \<le> 1" using assms by linarith
  have b0: "0 \<le> b" using assms by linarith
  have "a * a \<le> a * 1" using assms a1 by (intro mult_left_mono) auto
  moreover have "b * b \<le> b * 1" using assms b0 by (intro mult_left_mono) auto
  moreover have "a * b \<le> a * 1" using assms by (intro mult_left_mono) auto
  moreover have "a * b \<le> 1 * b" using a1 b0 by (intro mult_right_mono) auto
  ultimately show ?thesis by simp
qed

lemma ease_in_out_mono:
  assumes "0 \<le> a" "a \<le> b" "b \<le> 1"
  shows "ease_in_out a \<le> ease_in_out b"
proof -
  have "0 \<le> (b - a) * (3 * (a + b) - 2 * (a * a + a * b + b * b))"
    using assms ease_in_out_slope_nonneg[OF assms] by (intro mult_nonneg_nonneg) auto
  then show ?thesis using ease_in_out_diff[of b a] by linarith
qed

text \<open>
  Claim C6. The easing function is the smoothstep curve \<open>t\<^sup>2 (3 - 2 t)\<close>; it is \<open>0\<close> at
  \<open>0\<close> and \<open>1\<close> at \<open>1\<close>; it is monotonic non-decreasing on \<open>[0, 1]\<close>, and in particular
  along the 100 evenly spaced points \<open>0/99, 1/99, ..., 99/99\<close>.
\<close>

theorem ease_in_out_smoothstep:
  "ease_in_out t = t\<^sup>2 * (3 - 2 * t) \<and>
   ease_in_out 0 = 0 \<and> ease_in_out 1 = 1 \<and>
   (\<forall>a b. 0 \<le> a \<and> a \<le> b \<and> b \<le> 1 \<longrightarrow> ease_in_out a \<le> ease_in_out b) \<and>
   (\<forall>i j. i \<le> j \<and> j < (100::nat) \<longrightarrow>
      ease_in_out (real i / 99) \<le> ease_in_out (real j / 99))"
proof (intro conjI allI impI)
  show "ease_in_out t = t\<^sup>2 * (3 - 2 * t)"
    by (simp add: ease_in_out_def power2_eq_square)
  show "ease_in_out 0 = 0" by (simp add: ease_in_out_def)
  show "ease_in_out 1 = 1" by (simp add: ease_in_out_def)
next
  fix a b :: real
  assume "0 \<le> a \<and> a \<le> b \<and> b \<le> 1"
  then show "ease_in_out a \<le> ease_in_out b" using ease_in_out_mono by blast
next
  fix i j :: nat
  assume h: "i \<le> j \<and> j < 100"
  have "real i / 99 \<le> real j / 99" using h by (simp add: divide_right_mono)
  moreover have "real j / 99 \<le> 1" using h by simp
  ultimately show "ease_in_out (real i / 99) \<le> ease_in_out (real j / 99)"
    by (intro ease_in_out_mono) auto
qed

theorem ease_in_out_smoothstep_witness:
  "ease_in_out (1 / 4) = 5 / 32 \<and> ease_in_out (1 / 2) = 1 / 2 \<and>
   ease_in_out (1 / 4) \<le> ease_in_out (1 / 2) \<and>
   ease_in_out (real (3::nat) / 99) \<le> ease_in_out (real (7::nat) / 99)"
proof -
  have m: "\<forall>a b. 0 \<le> a \<and> a \<le> b \<and> b \<le> 1 \<longrightarrow> ease_in_out a \<le> ease_in_out b"
    and s: "\<forall>i j. i \<le> j \<and> j < (100::nat) \<longrightarrow>
              ease_in_out (real i / 99) \<le> ease_in_out (real j / 99)"
    using ease_in_out_smoothstep[of 0] by blast+
  have "ease_in_out (1 / 4) \<le> ease_in_out (1 / 2)" using m by simp
  moreover have "ease_in_out (real (3::nat) / 99) \<le> ease_in_out (real (7::nat) / 99)"
    using s[rule_format, of 3 7] by simp
  moreover have "ease_in_out (1 / 4) = 5 / 32" "ease_in_out (1 / 2) = 1 / 2"
    by (simp_all add: ease_in_out_def)
  ultimately show ?thesis by blast
qed

section \<open>Bounds resolution\<close>

text \<open>
  Claim C10. For the name \<^verbatim>\<open>'World'\<close> the function returns \<open>WORLD_BOUNDS\<close>, the list
  \<open>[-170, 170, -55, 85]\<close>, whatever the map data and the padding are: neither the
  padding nor the 9:16 normalization is applied, and the ratio of width to height of
  what is returned is \<open>340 / 140 = 17 / 7\<close>, not \<open>9 / 16\<close>.
\<close>

theorem world_target_bypasses_normalization:
  "get_target_bounds gdf ''World'' pad = Finite WORLD_BOUNDS \<and>
   WORLD_BOUNDS = [-170, 170, -55, 85] \<and>
   width WORLD_BOUNDS / height WORLD_BOUNDS = 17 / 7 \<and>
   width WORLD_BOUNDS / height WORLD_BOUNDS \<noteq> 9 / 16"
  by (simp add: get_target_bounds_def WORLD_BOUNDS_def width_def height_def)

text \<open>
  Claim C2 fails on the code. A name that no row of the map carries does not make the
  lookup raise: the bounds of the empty selection are four NaNs, the \<^verbatim>\<open>except\<close> branch
  of lines 49-50 is not taken, and the function returns four NaNs, not \<open>WORLD_BOUNDS\<close> and
  not a viewport with \<open>max > min\<close>. Here the map has rows for \<^verbatim>\<open>'Brazil'\<close> only and
  the name is \<^verbatim>\<open>'Atlantis'\<close>.
\<close>

theorem absent_name_returns_nans:
  "get_target_bounds (\<lambda>n. if n = ''Brazil'' then Found (-74, -34, -35, 5) else No_rows)
     ''Atlantis'' 15 = NaNs \<and>
   get_target_bounds (\<lambda>n. if n = ''Brazil'' then Found (-74, -34, -35, 5) else No_rows)
     ''Atlantis'' 15 \<noteq> Finite WORLD_BOUNDS \<and>
   \<not> valid_region
     (get_target_bounds (\<lambda>n. if n = ''Brazil'' then Found (-74, -34, -35, 5) else No_rows)
        ''Atlantis'' 15)"
  by (simp add: get_target_bounds_def)

text \<open>The fallback is reached only when the lookup itself raises.\<close>

lemma get_target_bounds_lookup_error:
  "gdf country_name = Lookup_error \<Longrightarrow>
     get_target_bounds gdf country_name pad = Finite WORLD_BOUNDS"
  by (simp add: get_target_bounds_def)

lemma get_target_bounds_no_rows:
  "country_name \<noteq> ''World'' \<Longrightarrow> gdf country_name = No_rows \<Longrightarrow>
     get_target_bounds gdf country_name pad = NaNs"
  by (simp add: get_target_bounds_def)

lemma padded_bounds_simps:
  "padded_bounds (minx, miny, maxx, maxy) pad =
     [minx - pad / 2, maxx + pad / 2, miny - pad / 2, maxy + pad / 2]"
  by (simp add: padded_bounds_def Let_def field_simps)

lemma padded_bounds_geometry:
  "width (padded_bounds (minx, miny, maxx, maxy) pad) = (maxx - minx) + pad"
  "height (padded_bounds (minx, miny, maxx, maxy) pad) = (maxy - miny) + pad"
  "centre (padded_bounds (minx, miny, maxx, maxy) pad) = ((minx + maxx) / 2, (miny + maxy) / 2)"
  by (simp_all add: padded_bounds_simps width_def height_def centre_def)

text \<open>
  The returned region is computed from the width, the height and the centre of
  \<open>padded_bounds\<close>: that box is the region before normalization.
\<close>

lemma get_target_bounds_padded:
  assumes "country_name \<noteq> ''World''" "gdf country_name = Found raw"
  shows "get_target_bounds gdf country_name pad =
     (let p = padded_bounds raw pad; cx = fst (centre p); cy = snd (centre p);
          w = width p; h = height p
      in if wider_than w h (9 / 16)
         then Finite [cx - w / 2, cx + w / 2, cy - (w / (9 / 16)) / 2, cy + (w / (9 / 16)) / 2]
         else Finite [cx - (h * (9 / 16)) / 2, cx + (h * (9 / 16)) / 2, cy - h / 2, cy + h / 2])"
proof -
  obtain minx miny maxx maxy where r: "raw = (minx, miny, maxx, maxy)"
    by (cases raw) auto
  show ?thesis
    using assms unfolding r Let_def padded_bounds_geometry
    by (simp add: get_target_bounds_def Let_def)
qed

text \<open>
  Claim C3, as stated, fails: the padding is added once to the width and once to the
  height (lines 57-58), so each side moves out by half of it. For the raw region
  \<open>[0, 10, 0, 10]\<close> and padding \<open>2\<close> the padded region is \<open>[-1, 11, -1, 11]\<close> and the
  returned region is \<open>[-1, 11, -17/3, 47/3]\<close>: the left edge is \<open>1\<close> from the raw one,
  not \<open>2\<close>. With padding \<open>0\<close> the padded region is the raw region, which it does not
  strictly contain.
\<close>

theorem padding_by_exactly_p_counterexample:
  "get_target_bounds (\<lambda>n. if n = ''A'' then Found (0, 0, 10, 10) else No_rows) ''A'' 2
     = Finite [-1, 11, - (17 / 3), 47 / 3] \<and>
   padded_bounds (0, 0, 10, 10) 2 = [-1, 11, -1, 11] \<and>
   raw_bounds (0, 0, 10, 10) = [0, 10, 0, 10] \<and>
   raw_bounds (0, 0, 10, 10) ! 0 - padded_bounds (0, 0, 10, 10) 2 ! 0 \<noteq> 2 \<and>
   raw_bounds (0, 0, 10, 10) ! 0 - [-1, 11, - (17 / 3), 47 / 3] ! 0 \<noteq> (2::real) \<and>
   padded_bounds (0, 0, 10, 10) 0 = raw_bounds (0, 0, 10, 10)"
  by (simp add: get_target_bounds_def padded_bounds_def raw_bounds_def wider_than_def Let_def)

text \<open>
  Claim C3, amended. For every raw region and every padding \<open>p \<ge> 0\<close>, the padded region
  contains the raw region and lies exactly \<open>p / 2\<close> outside it on each of the four sides:
  its width and its height are those of the raw region plus \<open>p\<close>.
\<close>

theorem padding_extends_each_side_by_half:
  assumes "0 \<le> pad"
  shows "raw_bounds raw ! 0 - padded_bounds raw pad ! 0 = pad / 2 \<and>
         padded_bounds raw pad ! 1 - raw_bounds raw ! 1 = pad / 2 \<and>
         raw_bounds raw ! 2 - padded_bounds raw pad ! 2 = pad / 2 \<and>
         padded_bounds raw pad ! 3 - raw_bounds raw ! 3 = pad / 2 \<and>
         contains (padded_bounds raw pad) (raw_bounds raw) \<and>
         width (padded_bounds raw pad) = width (raw_bounds raw) + pad \<and>
         height (padded_bounds raw pad) = height (raw_bounds raw) + pad"
proof -
  obtain minx miny maxx maxy where r: "raw = (minx, miny, maxx, maxy)"
    by (cases raw) auto
  show ?thesis
    using assms unfolding r padded_bounds_simps
    by (simp add: raw_bounds_def contains_def width_def height_def)
qed

theorem padding_extends_each_side_by_half_witness:
  "padded_bounds (0, 0, 10, 10) 15 = [- (15 / 2), 35 / 2, - (15 / 2), 35 / 2] \<and>
   raw_bounds (0, 0, 10, 10) ! 0 - padded_bounds (0, 0, 10, 10) 15 ! 0 = 15 / 2 \<and>
   padded_bounds (0, 0, 10, 10) 15 ! 3 - raw_bounds (0, 0, 10, 10) ! 3 = 15 / 2 \<and>
   contains (padded_bounds (0, 0, 10, 10) 15) (raw_bounds (0, 0, 10, 10)) \<and>
   width (padded_bounds (0, 0, 10, 10) 15) = 25"
proof -
  have p: "(0::real) \<le> 15" by simp
  have "padded_bounds (0, 0, 10, 10) 15 = [- (15 / 2), 35 / 2, - (15 / 2), 35 / 2]"
    by (simp add: padded_bounds_simps)
  moreover have "width (raw_bounds (0, 0, 10, 10)) + 15 = 25"
    by (simp add: raw_bounds_def width_def)
  ultimately show ?thesis
    using padding_extends_each_side_by_half [OF p, of "(0, 0, 10, 10)"] by simp
qed

text \<open>
  Claim C4. For a resolved target whose padded region has positive width and height,
  the function returns numbers, and the returned region has width to height ratio
  exactly \<open>9 / 16\<close> (so within \<open>10\<^sup>-\<^sup>6\<close> of it), contains the region before
  normalization, and keeps its centre, which is the centre of the raw region: the
  region is grown, never cropped. With a padding \<open>p \<ge> 0\<close> it contains the raw region as
  well.
\<close>

theorem normalized_region_ratio_containment:
  assumes name: "country_name \<noteq> ''World''"
    and found: "gdf country_name = Found raw"
    and w_pos: "0 < width (padded_bounds raw pad)"
    and h_pos: "0 < height (padded_bounds raw pad)"
  shows "\<exists>out. get_target_bounds gdf country_name pad = Finite out \<and>
         width out / height out = 9 / 16 \<and>
         \<bar>width out / height out - 9 / 16\<bar> \<le> 1 / 10 ^ 6 \<and>
         contains out (padded_bounds raw pad) \<and>
         centre out = centre (padded_bounds raw pad) \<and>
         centre out = centre (raw_bounds raw) \<and>
         (0 \<le> pad \<longrightarrow> contains out (raw_bounds raw))"
proof -
  obtain minx miny maxx maxy where r: "raw = (minx, miny, maxx, maxy)"
    by (cases raw) auto
  define w where "w = (maxx - minx) + pad"
  define h where "h = (maxy - miny) + pad"
  have w: "0 < w" and h: "0 < h"
    using w_pos h_pos unfolding r padded_bounds_simps w_def h_def
    by (simp_all add: width_def height_def)
  show ?thesis
  proof (cases "wider_than w h (9 / 16)")
    case True
    then have gt: "9 / 16 * h < w" using h by (simp add: wider_than_def field_simps)
    have out: "get_target_bounds gdf country_name pad =
        Finite [(minx + maxx) / 2 - w / 2, (minx + maxx) / 2 + w / 2,
         (miny + maxy) / 2 - (w / (9 / 16)) / 2, (miny + maxy) / 2 + (w / (9 / 16)) / 2]"
      using name found True unfolding r
      by (simp add: get_target_bounds_def Let_def w_def h_def)
    show ?thesis
      unfolding out r padded_bounds_simps
      using w h gt
      by (simp add: width_def height_def contains_def centre_def raw_bounds_def w_def h_def field_simps)
  next
    case False
    then have le: "w \<le> 9 / 16 * h" using h by (simp add: wider_than_def field_simps)
    have out: "get_target_bounds gdf country_name pad =
        Finite [(minx + maxx) / 2 - (h * (9 / 16)) / 2, (minx + maxx) / 2 + (h * (9 / 16)) / 2,
         (miny + maxy) / 2 - h / 2, (miny + maxy) / 2 + h / 2]"
      using name found False unfolding r
      by (simp add: get_target_bounds_def Let_def w_def h_def)
    show ?thesis
      unfolding out r padded_bounds_simps
      using w h le
      by (simp add: width_def height_def contains_def centre_def raw_bounds_def w_def h_def field_simps)
  qed
qed

theorem normalized_region_ratio_containment_witness:
  "get_target_bounds (\<lambda>n. if n = ''A'' then Found (0, 0, 10, 10) else No_rows) ''A'' 15
     = Finite [- (15 / 2), 35 / 2, - (155 / 9), 245 / 9] \<and>
   width [- (15 / 2), 35 / 2, - (155 / 9), 245 / 9]
     / height [- (15 / 2), 35 / 2, - (155 / 9), 245 / 9] = 9 / 16 \<and>
   contains [- (15 / 2), 35 / 2, - (155 / 9), 245 / 9] (padded_bounds (0, 0, 10, 10) 15) \<and>
   contains [- (15 / 2), 35 / 2, - (155 / 9), 245 / 9] (raw_bounds (0, 0, 10, 10)) \<and>
   centre [- (15 / 2), 35 / 2, - (155 / 9), 245 / 9] = (5, 5)"
proof -
  let ?g = "\<lambda>n. if n = ''A'' then Found (0, 0, 10, 10) else No_rows"
  let ?out = "[- (15 / 2), 35 / 2, - (155 / 9), 245 / 9 :: real]"
  have a: "''A'' \<noteq> ''World''" by simp
  have b: "?g ''A'' = Found (0, 0, 10, 10)" by simp
  have c: "0 < width (padded_bounds (0, 0, 10, 10) 15)"
    and d: "0 < height (padded_bounds (0, 0, 10, 10) 15)"
    by (simp_all add: padded_bounds_geometry)
  have e: "get_target_bounds ?g ''A'' 15 = Finite ?out"
    by (simp add: get_target_bounds_def wider_than_def Let_def)
  have f: "centre (raw_bounds (0, 0, 10, 10)) = (5, 5)"
    by (simp add: centre_def raw_bounds_def)
  have p: "(0::real) \<le> 15" by simp
  obtain out where o: "get_target_bounds ?g ''A'' 15 = Finite out"
    and r1: "width out / height out = 9 / 16"
    and r2: "contains out (padded_bounds (0, 0, 10, 10) 15)"
    and r4: "centre out = centre (raw_bounds (0, 0, 10, 10))"
    and r3: "0 \<le> (15::real) \<longrightarrow> contains out (raw_bounds (0, 0, 10, 10))"
    using normalized_region_ratio_containment
         [where gdf = ?g and country_name = "''A''" and raw = "(0, 0, 10, 10)" and pad = 15,
          OF a b c d]
    by blast
  have out: "out = ?out" using o e by simp
  have r3': "contains ?out (raw_bounds (0, 0, 10, 10))" using r3 p out by blast
  have r4': "centre ?out = (5, 5)" using r4 f out by simp
  show ?thesis using e r1 r2 r3' r4' out by blast
qed

text \<open>
  A resolved region is never the world region: its ratio is \<open>9 / 16\<close>, that of
  \<open>WORLD_BOUNDS\<close> is \<open>17 / 7\<close>. So no zoom of \<open>create_video\<close> between the world region and
  the region of a country it finds starts at its target.
\<close>

lemma resolved_region_not_world:
  assumes name: "country_name \<noteq> ''World''"
    and found: "gdf country_name = Found (minx, miny, maxx, maxy)"
    and ord: "minx \<le> maxx" "miny \<le> maxy"
    and pad: "0 < pad"
  shows "get_target_bounds gdf country_name pad \<noteq> Finite WORLD_BOUNDS"
proof
  assume eq: "get_target_bounds gdf country_name pad = Finite WORLD_BOUNDS"
  define w where "w = (maxx - minx) + pad"
  define h where "h = (maxy - miny) + pad"
  have w: "0 < w" and h: "0 < h" using ord pad by (simp_all add: w_def h_def)
  show False
  proof (cases "wider_than w h (9 / 16)")
    case True
    define h' where "h' = w / (9 / 16)"
    have "get_target_bounds gdf country_name pad =
        Finite [(minx + maxx) / 2 - w / 2, (minx + maxx) / 2 + w / 2,
         (miny + maxy) / 2 - h' / 2, (miny + maxy) / 2 + h' / 2]"
      using name found True by (simp add: get_target_bounds_def Let_def w_def h_def h'_def)
    with eq have "(minx + maxx) / 2 - w / 2 = -170" "(minx + maxx) / 2 + w / 2 = 170"
      "(miny + maxy) / 2 - h' / 2 = -55" "(miny + maxy) / 2 + h' / 2 = 85"
      by (simp_all add: WORLD_BOUNDS_def)
    then have "w = 340" "h' = 140" by linarith+
    then show False by (simp add: h'_def)
  next
    case False
    define w' where "w' = h * (9 / 16)"
    have "get_target_bounds gdf country_name pad =
        Finite [(minx + maxx) / 2 - w' / 2, (minx + maxx) / 2 + w' / 2,
         (miny + maxy) / 2 - h / 2, (miny + maxy) / 2 + h / 2]"
      using name found False by (simp add: get_target_bounds_def Let_def w_def h_def w'_def)
    with eq have "(minx + maxx) / 2 - w' / 2 = -170" "(minx + maxx) / 2 + w' / 2 = 170"
      "(miny + maxy) / 2 - h / 2 = -55" "(miny + maxy) / 2 + h / 2 = 85"
      by (simp_all add: WORLD_BOUNDS_def)
    then have "w' = 340" "h = 140" by linarith+
    then show False by (simp add: w'_def)
  qed
qed

section \<open>The sequence of frames\<close>

lemma render_frame_fields:
  "frame_count (render_frame rnd b hl txt s st) = frame_count st + 1"
  "rng_pos (render_frame rnd b hl txt s st) = rng_pos st + 2"
  "length (frames (render_frame rnd b hl txt s st)) = length (frames st) + 1"
  "map viewport (frames (render_frame rnd b hl txt s st))
     = map viewport (frames st) @ [shaken rnd s (rng_pos st) b]"
  "map frame_no (frames (render_frame rnd b hl txt s st))
     = map frame_no (frames st) @ [frame_count st]"
  by (simp_all add: render_frame_def Let_def viewport_def shaken_def)

lemma play_append:
  "play rnd p (xs @ ys) = play rnd p xs @ play rnd (p + 2 * length xs) ys"
  by (induction xs arbitrary: p) (auto simp: algebra_simps)

lemma length_play: "length (play rnd p xs) = length xs"
  by (induction xs arbitrary: p) auto

text \<open>A loop of \<open>n\<close> renderings, the bounds of the \<open>i\<close>-th being \<open>f i\<close>.\<close>

lemma render_loop:
  "frame_count (fold (\<lambda>i. render_frame rnd (f i) hl txt s) [0..<n] st) = frame_count st + n \<and>
   rng_pos (fold (\<lambda>i. render_frame rnd (f i) hl txt s) [0..<n] st) = rng_pos st + 2 * n \<and>
   map viewport (frames (fold (\<lambda>i. render_frame rnd (f i) hl txt s) [0..<n] st))
     = map viewport (frames st) @ play rnd (rng_pos st) (map (\<lambda>i. (f i, s)) [0..<n]) \<and>
   map frame_no (frames (fold (\<lambda>i. render_frame rnd (f i) hl txt s) [0..<n] st))
     = map frame_no (frames st) @ [frame_count st..<frame_count st + n]"
proof (induction n)
  case 0
  show ?case by simp
next
  case (Suc n)
  then show ?case
    by (simp add: render_frame_fields play_append)
qed

lemma zoom_phase_frames:
  "frame_count (zoom_phase rnd n a b hl txt st) = frame_count st + n"
  "rng_pos (zoom_phase rnd n a b hl txt st) = rng_pos st + 2 * n"
  "map viewport (frames (zoom_phase rnd n a b hl txt st))
     = map viewport (frames st) @ play rnd (rng_pos st) (zoom_plan n a b)"
  "map frame_no (frames (zoom_phase rnd n a b hl txt st))
     = map frame_no (frames st) @ [frame_count st..<frame_count st + n]"
  using render_loop [of rnd "\<lambda>i. interp_bounds a b (ease_in_out (real i / real n))" hl "txt" 0 n st]
  by (simp_all add: zoom_phase_def zoom_plan_def Let_def)

lemma hold_phase_frames:
  "frame_count (hold_phase rnd n c hl txt s st) = frame_count st + n"
  "rng_pos (hold_phase rnd n c hl txt s st) = rng_pos st + 2 * n"
  "map viewport (frames (hold_phase rnd n c hl txt s st))
     = map viewport (frames st) @ play rnd (rng_pos st) (hold_plan n c s)"
  "map frame_no (frames (hold_phase rnd n c hl txt s st))
     = map frame_no (frames st) @ [frame_count st..<frame_count st + n]"
  using render_loop [of rnd "\<lambda>i. c" hl "txt" s n st]
  by (simp_all add: hold_phase_def hold_plan_def map_replicate_const)


lemma upt_join: "[a..<a + m] @ [a + m..<a + (m + n)] = [a..<a + (m + n)]"
  using upt_add_eq_append [of a "a + m" n] by (simp add: add.assoc)

lemma length_zoom_plan: "length (zoom_plan n a b) = n"
  by (simp add: zoom_plan_def)

lemma length_hold_plan: "length (hold_plan n c s) = n"
  by (simp add: hold_plan_def)

lemma length_targets_plan:
  "length (targets_plan tm current regions)
     = length regions * (zoom_frames tm + hold_frames tm) + zoom_frames tm + outro_frames tm"
  by (induction regions arbitrary: current)
     (simp_all add: length_zoom_plan length_hold_plan algebra_simps)

lemma length_timeline:
  "length (timeline tm regions)
     = intro_frames tm + length regions * (zoom_frames tm + hold_frames tm)
       + zoom_frames tm + outro_frames tm"
  by (simp add: timeline_def length_targets_plan length_hold_plan)

lemma length_frames_phase:
  "length (frames (zoom_phase rnd n a b hl txt st)) = length (frames st) + n"
  "length (frames (hold_phase rnd n c hl txt s st)) = length (frames st) + n"
proof -
  have "length (map viewport (frames (zoom_phase rnd n a b hl txt st))) = length (frames st) + n"
    unfolding zoom_phase_frames by (simp add: length_play length_zoom_plan)
  then show "length (frames (zoom_phase rnd n a b hl txt st)) = length (frames st) + n"
    by simp
  have "length (map viewport (frames (hold_phase rnd n c hl txt s st))) = length (frames st) + n"
    unfolding hold_phase_frames by (simp add: length_play length_hold_plan)
  then show "length (frames (hold_phase rnd n c hl txt s st)) = length (frames st) + n"
    by simp
qed

text \<open>One country whose region is a list of numbers, from a current viewport of numbers.\<close>

lemma country_step_frames:
  assumes "get_target_bounds world country 15 = Finite b"
  shows "\<exists>st'. country_step tm rnd world country (Finite current, hl, st)
            = Done (Finite b, hl @ [country], st') \<and>
     frame_count st' = frame_count st + (zoom_frames tm + hold_frames tm) \<and>
     rng_pos st' = rng_pos st + 2 * (zoom_frames tm + hold_frames tm) \<and>
     map viewport (frames st')
       = map viewport (frames st)
         @ play rnd (rng_pos st)
             (zoom_plan (zoom_frames tm) current b @ hold_plan (hold_frames tm) b (shake tm)) \<and>
     map frame_no (frames st')
       = map frame_no (frames st)
         @ [frame_count st..<frame_count st + (zoom_frames tm + hold_frames tm)]"
  using assms
  by (simp add: country_step_def zoom_to_def hold_on_def Let_def zoom_phase_frames
      hold_phase_frames play_append length_zoom_plan upt_join add.assoc)

text \<open>
  The loop over the countries and the finale, when the region of every country is a
  list of numbers.
\<close>

lemma countries_then_finale:
  assumes "map (\<lambda>c. get_target_bounds world c 15) countries = map Finite regions"
  shows "\<exists>current' hl' st'.
     for_countries (country_step tm rnd world) countries (Finite current, hl, st)
       = Done (Finite current', hl', st') \<and>
     map viewport (frames
          (hold_phase rnd (outro_frames tm) WORLD_BOUNDS hl' t2 0
             (zoom_phase rnd (zoom_frames tm) current' WORLD_BOUNDS hl' t1 st')))
         = map viewport (frames st)
           @ play rnd (rng_pos st) (targets_plan tm current regions) \<and>
     map frame_no (frames
          (hold_phase rnd (outro_frames tm) WORLD_BOUNDS hl' t2 0
             (zoom_phase rnd (zoom_frames tm) current' WORLD_BOUNDS hl' t1 st')))
         = map frame_no (frames st)
           @ [frame_count st..<frame_count st
                + (length countries * (zoom_frames tm + hold_frames tm)
                   + zoom_frames tm + outro_frames tm)]"
  using assms
proof (induction countries arbitrary: current hl st regions)
  case Nil
  then have "regions = []" by simp
  then show ?case
    by (simp add: zoom_phase_frames hold_phase_frames play_append length_zoom_plan
        upt_join add.assoc)
next
  case (Cons c cs)
  from Cons.prems obtain r rs where regions: "regions = r # rs"
    and r: "get_target_bounds world c 15 = Finite r"
    and rs: "map (\<lambda>c. get_target_bounds world c 15) cs = map Finite rs"
    by (cases regions) auto
  obtain st1 where step:
    "country_step tm rnd world c (Finite current, hl, st) = Done (Finite r, hl @ [c], st1)"
    and fc: "frame_count st1 = frame_count st + (zoom_frames tm + hold_frames tm)"
    and rp: "rng_pos st1 = rng_pos st + 2 * (zoom_frames tm + hold_frames tm)"
    and vp: "map viewport (frames st1)
       = map viewport (frames st)
         @ play rnd (rng_pos st)
             (zoom_plan (zoom_frames tm) current r @ hold_plan (hold_frames tm) r (shake tm))"
    and fn: "map frame_no (frames st1)
       = map frame_no (frames st)
         @ [frame_count st..<frame_count st + (zoom_frames tm + hold_frames tm)]"
    using country_step_frames [OF r, where tm = tm and rnd = rnd and current = current
        and hl = hl and st = st]
    by blast
  have join: "[frame_count st..<frame_count st + (zoom_frames tm + hold_frames tm)]
          @ [frame_count st + (zoom_frames tm + hold_frames tm)..<
             frame_count st + (zoom_frames tm + hold_frames tm)
               + (length cs * (zoom_frames tm + hold_frames tm) + zoom_frames tm + outro_frames tm)]
        = [frame_count st..<frame_count st
             + (length (c # cs) * (zoom_frames tm + hold_frames tm)
                + zoom_frames tm + outro_frames tm)]"
    using upt_join [of "frame_count st" "zoom_frames tm + hold_frames tm"
        "length cs * (zoom_frames tm + hold_frames tm) + zoom_frames tm + outro_frames tm"]
    by (simp add: algebra_simps)
  obtain current' hl' st' where
    loop: "for_countries (country_step tm rnd world) cs (Finite r, hl @ [c], st1)
       = Done (Finite current', hl', st')"
    and v: "map viewport (frames
          (hold_phase rnd (outro_frames tm) WORLD_BOUNDS hl' t2 0
             (zoom_phase rnd (zoom_frames tm) current' WORLD_BOUNDS hl' t1 st')))
         = map viewport (frames st1) @ play rnd (rng_pos st1) (targets_plan tm r rs)"
    and f: "map frame_no (frames
          (hold_phase rnd (outro_frames tm) WORLD_BOUNDS hl' t2 0
             (zoom_phase rnd (zoom_frames tm) current' WORLD_BOUNDS hl' t1 st')))
         = map frame_no (frames st1)
           @ [frame_count st1..<frame_count st1
                + (length cs * (zoom_frames tm + hold_frames tm)
                   + zoom_frames tm + outro_frames tm)]"
    using Cons.IH [OF rs, where current = r and hl = "hl @ [c]" and st = st1] by blast
  show ?case
    using join
    by (intro exI [of _ current'] exI [of _ hl'] exI [of _ st'])
       (simp add: step loop v f fc rp vp fn regions play_append length_zoom_plan
          length_hold_plan add.assoc)
qed

text \<open>
  What \<open>animation_sequence\<close> saves, against the planned timeline: when the region of
  every country is a list of numbers the run is done, its frames are those of the
  timeline in order, numbered from \<open>0\<close>, and their number is
  \<open>intro + K * (zoom + hold) + zoom + outro\<close>.
\<close>

lemma animation_sequence_frames:
  assumes "map (\<lambda>c. get_target_bounds world c 15) countries = map Finite regions"
  shows "\<exists>st. animation_sequence tm rnd world countries = Done st \<and>
     map viewport (frames st) = play rnd 0 (timeline tm regions) \<and>
     map frame_no (frames st) = [0..<length (frames st)] \<and>
     length (frames st)
       = intro_frames tm + length countries * (zoom_frames tm + hold_frames tm)
         + zoom_frames tm + outro_frames tm"
proof -
  let ?st0 = "\<lparr>frame_count = 0, rng_pos = 0, frames = []\<rparr>"
  let ?st1 = "hold_phase rnd (intro_frames tm) WORLD_BOUNDS [] ''Initiating Scan...'' 0 ?st0"
  let ?n = "length countries * (zoom_frames tm + hold_frames tm)
              + zoom_frames tm + outro_frames tm"
  obtain cur hl st2 where loop:
    "for_countries (country_step tm rnd world) countries (Finite WORLD_BOUNDS, [], ?st1)
       = Done (Finite cur, hl, st2)"
    and v: "map viewport (frames
          (hold_phase rnd (outro_frames tm) WORLD_BOUNDS hl ''The Truth is Out There...'' 0
             (zoom_phase rnd (zoom_frames tm) cur WORLD_BOUNDS hl
                ''Global Analysis Complete'' st2)))
         = map viewport (frames ?st1)
           @ play rnd (rng_pos ?st1) (targets_plan tm WORLD_BOUNDS regions)"
    and f: "map frame_no (frames
          (hold_phase rnd (outro_frames tm) WORLD_BOUNDS hl ''The Truth is Out There...'' 0
             (zoom_phase rnd (zoom_frames tm) cur WORLD_BOUNDS hl
                ''Global Analysis Complete'' st2)))
         = map frame_no (frames ?st1) @ [frame_count ?st1..<frame_count ?st1 + ?n]"
    using countries_then_finale
      [OF assms, where tm = tm and rnd = rnd and current = WORLD_BOUNDS and hl = "[]"
         and st = ?st1 and ?t2.0 = "''The Truth is Out There...''"
         and ?t1.0 = "''Global Analysis Complete''"]
    by blast
  let ?res = "hold_phase rnd (outro_frames tm) WORLD_BOUNDS hl ''The Truth is Out There...'' 0
                (zoom_phase rnd (zoom_frames tm) cur WORLD_BOUNDS hl
                   ''Global Analysis Complete'' st2)"
  have res: "animation_sequence tm rnd world countries = Done ?res"
    by (simp add: animation_sequence_def hold_on_def zoom_to_def Let_def loop)
  have len_regions: "length regions = length countries"
    using arg_cong [OF assms, of length] by simp
  have v': "map viewport (frames ?res) = play rnd 0 (timeline tm regions)"
    unfolding v by (simp add: hold_phase_frames timeline_def play_append length_hold_plan)
  have "map frame_no (frames ?res) = [0..<intro_frames tm] @ [intro_frames tm..<intro_frames tm + ?n]"
    unfolding f by (simp add: hold_phase_frames)
  then have f': "map frame_no (frames ?res) = [0..<intro_frames tm + ?n]"
    using upt_add_eq_append [of 0 "intro_frames tm" ?n] by simp
  have "length (map viewport (frames ?res)) = length (timeline tm regions)"
    unfolding v' by (simp add: length_play)
  then have len: "length (frames ?res) = intro_frames tm + ?n"
    by (simp add: length_timeline len_regions)
  show ?thesis
    unfolding res using v' f' len by (simp add: add.assoc)
qed

text \<open>
  Claim C1 fails on the code where a target is a name the map does not have. Its bounds
  are four NaNs, the first frame of the zoom towards it has NaN limits, and
  \<^verbatim>\<open>ax.set_xlim\<close> (line 133) raises: the run ends there. With one frame of initial hold,
  two of zoom, two of hold, one of closing hold, the map holding \<^verbatim>\<open>'A'\<close> only and the
  targets \<^verbatim>\<open>'A'\<close> and \<^verbatim>\<open>'B'\<close>, the run saves the 5 frames up to the hold on \<^verbatim>\<open>'A'\<close>
  and raises, where the claim has 12 frames. \<open>create_video\<close> on a map that has its other
  countries and not the first raises after the 30 frames of the initial hold.
\<close>

theorem absent_target_aborts_sequence:
  "(\<exists>st. animation_sequence
       \<lparr>intro_frames = 1, zoom_frames = 2, hold_frames = 2, outro_frames = 1, shake = 8 / 10\<rparr>
       (\<lambda>k. real (k mod 4) / 4) (\<lambda>n. if n = ''A'' then Found (0, 0, 10, 10) else No_rows)
       [''A'', ''B''] = Raised st \<and>
     frame_count st = 5 \<and>
     map viewport (frames st)
       = [[- 170, 170, - 55, 85],
          [- 170, 170, - 55, 85], [- (355 / 4), 375 / 4, - (325 / 9), 505 / 9],
          [- (15 / 2), 35 / 2, - (757 / 45), 1243 / 45],
          [- (83 / 10), 167 / 10, - (793 / 45), 1207 / 45]]) \<and>
   get_target_bounds (\<lambda>n. if n = ''A'' then Found (0, 0, 10, 10) else No_rows) ''B'' 15 = NaNs \<and>
   (\<exists>st. create_video (\<lambda>k. real (k mod 4) / 4)
       (\<lambda>n. if n = ''Russia'' then Found (-180, 41, 180, 81)
             else if n = ''Brazil'' then Found (-74, -34, -35, 5)
             else if n = ''Australia'' then Found (113, -44, 154, -11)
             else if n = ''India'' then Found (68, 8, 97, 36)
             else No_rows) = Raised st \<and>
     length (frames st) = 30)"
proof -
  let ?w2 = "\<lambda>n. if n = ''Russia'' then Found (-180, 41, 180, 81)
             else if n = ''Brazil'' then Found (-74, -34, -35, 5)
             else if n = ''Australia'' then Found (113, -44, 154, -11)
             else if n = ''India'' then Found (68, 8, 97, 36)
             else No_rows"
  let ?tm = "\<lparr>intro_frames = 1, zoom_frames = 2, hold_frames = 2, outro_frames = 1, shake = 8 / 10\<rparr>"
  let ?rnd = "\<lambda>k::nat. real (k mod 4) / 4"
  let ?w = "\<lambda>n. if n = ''A'' then Found (0, 0, 10, 10) else No_rows"
  let ?a = "[- (15 / 2), 35 / 2, - (155 / 9), 245 / 9 :: real]"
  let ?st0 = "\<lparr>frame_count = 0, rng_pos = 0, frames = []\<rparr>"
  let ?st1 = "hold_phase ?rnd 1 WORLD_BOUNDS [] ''Initiating Scan...'' 0 ?st0"
  let ?st2 = "zoom_phase ?rnd 2 WORLD_BOUNDS ?a [] ''Scanning: A'' ?st1"
  let ?st3 = "hold_phase ?rnd 2 ?a [''A''] ''TARGET LOCKED: A'' (8 / 10) ?st2"
  have a: "get_target_bounds ?w ''A'' 15 = Finite ?a"
    by (simp add: get_target_bounds_def wider_than_def Let_def)
  have b: "get_target_bounds ?w ''B'' 15 = NaNs"
    by (simp add: get_target_bounds_def)
  have run: "animation_sequence ?tm ?rnd ?w [''A'', ''B'']
      = Raised (?st3\<lparr>rng_pos := rng_pos ?st3 + 2\<rparr>)"
    by (simp add: animation_sequence_def hold_on_def zoom_to_def country_step_def a b Let_def)
  have count: "frame_count (?st3\<lparr>rng_pos := rng_pos ?st3 + 2\<rparr>) = 5"
    by (simp add: hold_phase_frames zoom_phase_frames)
  have plan: "hold_plan 1 WORLD_BOUNDS 0 @ zoom_plan 2 WORLD_BOUNDS ?a @ hold_plan 2 ?a (8 / 10)
      = [([- 170, 170, - 55, 85], 0),
         ([- 170, 170, - 55, 85], 0), ([- (355 / 4), 375 / 4, - (325 / 9), 505 / 9], 0),
         (?a, 8 / 10), (?a, 8 / 10)]"
    by (simp add: zoom_plan_def hold_plan_def interp_bounds_def ease_in_out_def
        WORLD_BOUNDS_def upt_rec numeral_eq_Suc)
  have "map viewport (frames (?st3\<lparr>rng_pos := rng_pos ?st3 + 2\<rparr>))
      = play ?rnd 0 (hold_plan 1 WORLD_BOUNDS 0 @ zoom_plan 2 WORLD_BOUNDS ?a
          @ hold_plan 2 ?a (8 / 10))"
    by (simp add: hold_phase_frames zoom_phase_frames play_append length_hold_plan
        length_zoom_plan)
  then have views: "map viewport (frames (?st3\<lparr>rng_pos := rng_pos ?st3 + 2\<rparr>))
      = [[- 170, 170, - 55, 85],
         [- 170, 170, - 55, 85], [- (355 / 4), 375 / 4, - (325 / 9), 505 / 9],
         [- (15 / 2), 35 / 2, - (757 / 45), 1243 / 45],
         [- (83 / 10), 167 / 10, - (793 / 45), 1207 / 45]]"
    unfolding plan by (simp add: shaken_def uniform_def Let_def)
  let ?v1 = "hold_phase ?rnd 30 WORLD_BOUNDS [] ''Initiating Scan...'' 0 ?st0"
  have video: "create_video ?rnd ?w2 = Raised (?v1\<lparr>rng_pos := rng_pos ?v1 + 2\<rparr>)"
    by (simp add: create_video_def animation_sequence_def hold_on_def zoom_to_def
        country_step_def get_target_bounds_def source_timing_def DATA_COUNTRIES_def
        ZOOM_FRAMES_def HOLD_FRAMES_def Let_def)
  have saved30: "length (frames (?v1\<lparr>rng_pos := rng_pos ?v1 + 2\<rparr>)) = 30"
    by (simp add: length_frames_phase)
  have first: "\<exists>st. animation_sequence ?tm ?rnd ?w [''A'', ''B''] = Raised st \<and>
     frame_count st = 5 \<and>
     map viewport (frames st)
       = [[- 170, 170, - 55, 85],
          [- 170, 170, - 55, 85], [- (355 / 4), 375 / 4, - (325 / 9), 505 / 9],
          [- (15 / 2), 35 / 2, - (757 / 45), 1243 / 45],
          [- (83 / 10), 167 / 10, - (793 / 45), 1207 / 45]]"
    by (rule exI [of _ "?st3\<lparr>rng_pos := rng_pos ?st3 + 2\<rparr>"]) (intro conjI run count views)
  have last: "\<exists>st. create_video ?rnd ?w2 = Raised st \<and> length (frames st) = 30"
    by (rule exI [of _ "?v1\<lparr>rng_pos := rng_pos ?v1 + 2\<rparr>"]) (intro conjI video saved30)
  show ?thesis
    by (intro conjI first b last)
qed

text \<open>
  In general: when the countries before \<open>c\<close> have regions of numbers, the region of \<open>c\<close>
  is NaN and a zoom has at least one frame, the run raises at the first frame of the
  zoom towards \<open>c\<close>, with the frames of the initial hold and of the countries before
  \<open>c\<close> saved.
\<close>

lemma for_countries_append:
  "for_countries body (xs @ ys) acc =
     (case for_countries body xs acc of
        Raised st \<Rightarrow> Raised st
      | Done acc' \<Rightarrow> for_countries body ys acc')"
  by (induction xs arbitrary: acc) (auto split: run.splits)

lemma for_countries_finite:
  assumes "map (\<lambda>c. get_target_bounds world c 15) countries = map Finite regions"
  shows "\<exists>current' hl' st'.
     for_countries (country_step tm rnd world) countries (Finite current, hl, st)
       = Done (Finite current', hl', st') \<and>
     length (frames st')
       = length (frames st) + length countries * (zoom_frames tm + hold_frames tm)"
  using assms
proof (induction countries arbitrary: current hl st regions)
  case Nil
  then show ?case by simp
next
  case (Cons c cs)
  from Cons.prems obtain r rs where
    r: "get_target_bounds world c 15 = Finite r"
    and rs: "map (\<lambda>c. get_target_bounds world c 15) cs = map Finite rs"
    by (cases regions) auto
  obtain st1 where step:
    "country_step tm rnd world c (Finite current, hl, st) = Done (Finite r, hl @ [c], st1)"
    and vp: "map viewport (frames st1)
       = map viewport (frames st)
         @ play rnd (rng_pos st)
             (zoom_plan (zoom_frames tm) current r @ hold_plan (hold_frames tm) r (shake tm))"
    using country_step_frames [OF r, where tm = tm and rnd = rnd and current = current
        and hl = hl and st = st]
    by blast
  have "length (map viewport (frames st1))
      = length (frames st) + (zoom_frames tm + hold_frames tm)"
    unfolding vp by (simp add: length_play length_zoom_plan length_hold_plan)
  then have l1: "length (frames st1) = length (frames st) + (zoom_frames tm + hold_frames tm)"
    by simp
  obtain current' hl' st' where
    loop: "for_countries (country_step tm rnd world) cs (Finite r, hl @ [c], st1)
       = Done (Finite current', hl', st')"
    and l: "length (frames st')
       = length (frames st1) + length cs * (zoom_frames tm + hold_frames tm)"
    using Cons.IH [OF rs, where current = r and hl = "hl @ [c]" and st = st1] by blast
  show ?case
    by (intro exI [of _ current'] exI [of _ hl'] exI [of _ st'])
       (simp add: step loop l l1 algebra_simps)
qed

lemma absent_target_raises:
  assumes before: "map (\<lambda>c. get_target_bounds world c 15) before = map Finite regions"
    and absent: "get_target_bounds world c 15 = NaNs"
    and zoom: "0 < zoom_frames tm"
  shows "\<exists>st. animation_sequence tm rnd world (before @ c # after) = Raised st \<and>
     length (frames st)
       = intro_frames tm + length before * (zoom_frames tm + hold_frames tm)"
proof -
  let ?st0 = "\<lparr>frame_count = 0, rng_pos = 0, frames = []\<rparr>"
  let ?st1 = "hold_phase rnd (intro_frames tm) WORLD_BOUNDS [] ''Initiating Scan...'' 0 ?st0"
  obtain current' hl' st' where
    loop: "for_countries (country_step tm rnd world) before (Finite WORLD_BOUNDS, [], ?st1)
       = Done (Finite current', hl', st')"
    and l: "length (frames st')
       = length (frames ?st1) + length before * (zoom_frames tm + hold_frames tm)"
    using for_countries_finite [OF before, where tm = tm and rnd = rnd
        and current = WORLD_BOUNDS and hl = "[]" and st = ?st1]
    by blast
  have step: "country_step tm rnd world c (Finite current', hl', st')
      = Raised (st'\<lparr>rng_pos := rng_pos st' + 2\<rparr>)"
    using absent zoom by (simp add: country_step_def zoom_to_def)
  have run: "animation_sequence tm rnd world (before @ c # after)
      = Raised (st'\<lparr>rng_pos := rng_pos st' + 2\<rparr>)"
    by (simp add: animation_sequence_def hold_on_def Let_def for_countries_append loop step)
  have len: "length (frames (st'\<lparr>rng_pos := rng_pos st' + 2\<rparr>))
      = intro_frames tm + length before * (zoom_frames tm + hold_frames tm)"
    using l by (simp add: length_frames_phase)
  show ?thesis
    by (rule exI [of _ "st'\<lparr>rng_pos := rng_pos st' + 2\<rparr>"]) (intro conjI run len)
qed

section \<open>The phases\<close>

lemma list4:
  "length b = 4 \<Longrightarrow> [b ! 0, b ! 1, b ! 2, b ! 3] = (b :: 'a list)"
  "length b = 4 \<Longrightarrow> [b ! 0, b ! Suc 0, b ! 2, b ! 3] = (b :: 'a list)"
  by (auto simp: numeral_eq_Suc length_Suc_conv)

lemma interp_bounds_list:
  "interp_bounds a b t =
     [a ! 0 + (b ! 0 - a ! 0) * t, a ! 1 + (b ! 1 - a ! 1) * t,
      a ! 2 + (b ! 2 - a ! 2) * t, a ! 3 + (b ! 3 - a ! 3) * t]"
  by (simp add: interp_bounds_def upt_rec numeral_eq_Suc)

lemma shaken_zero: "shaken rnd 0 p b = [b ! 0, b ! 1, b ! 2, b ! 3]"
  by (simp add: shaken_def uniform_def)

lemma play_nth:
  "i < length plan \<Longrightarrow>
     play rnd p plan ! i = shaken rnd (snd (plan ! i)) (p + 2 * i) (fst (plan ! i))"
proof (induction plan arbitrary: p i)
  case Nil
  then show ?case by simp
next
  case (Cons x plan)
  obtain b s where x: "x = (b, s)" by (cases x) auto
  show ?case
  proof (cases i)
    case 0
    then show ?thesis by (simp add: x)
  next
    case (Suc j)
    then show ?thesis using Cons by (simp add: x)
  qed
qed

lemma new_frames_zoom:
  "map viewport (new_frames st (zoom_phase rnd n a b hl cap st))
     = play rnd (rng_pos st) (zoom_plan n a b)"
  by (simp add: new_frames_def drop_map [symmetric] zoom_phase_frames)

lemma new_frames_hold:
  "map viewport (new_frames st (hold_phase rnd n c hl cap s st))
     = play rnd (rng_pos st) (hold_plan n c s)"
  by (simp add: new_frames_def drop_map [symmetric] hold_phase_frames)

lemma length_new_frames_zoom: "length (new_frames st (zoom_phase rnd n a b hl cap st)) = n"
proof -
  have "length (map viewport (new_frames st (zoom_phase rnd n a b hl cap st))) = n"
    unfolding new_frames_zoom by (simp add: length_play length_zoom_plan)
  then show ?thesis by simp
qed

lemma length_new_frames_hold: "length (new_frames st (hold_phase rnd n c hl cap s st)) = n"
proof -
  have "length (map viewport (new_frames st (hold_phase rnd n c hl cap s st))) = n"
    unfolding new_frames_hold by (simp add: length_play length_hold_plan)
  then show ?thesis by simp
qed

lemma zoom_frame_viewport:
  assumes "i < n"
  shows "viewport (new_frames st (zoom_phase rnd n a b hl cap st) ! i)
           = interp_bounds a b (ease_in_out (real i / real n))"
proof -
  have "viewport (new_frames st (zoom_phase rnd n a b hl cap st) ! i)
          = map viewport (new_frames st (zoom_phase rnd n a b hl cap st)) ! i"
    using assms by (simp add: length_new_frames_zoom)
  also have "\<dots> = play rnd (rng_pos st) (zoom_plan n a b) ! i"
    by (simp add: new_frames_zoom)
  also have "\<dots> = interp_bounds a b (ease_in_out (real i / real n))"
    using assms
    by (simp add: play_nth length_zoom_plan zoom_plan_def shaken_zero interp_bounds_list)
  finally show ?thesis .
qed

lemma hold_frame_viewport:
  assumes "i < n"
  shows "viewport (new_frames st (hold_phase rnd n c hl cap s st) ! i)
           = shaken rnd s (rng_pos st + 2 * i) c"
proof -
  have "viewport (new_frames st (hold_phase rnd n c hl cap s st) ! i)
          = map viewport (new_frames st (hold_phase rnd n c hl cap s st)) ! i"
    using assms by (simp add: length_new_frames_hold)
  also have "\<dots> = play rnd (rng_pos st) (hold_plan n c s) ! i"
    by (simp add: new_frames_hold)
  also have "\<dots> = shaken rnd s (rng_pos st + 2 * i) c"
    using assms by (simp add: play_nth length_hold_plan hold_plan_def)
  finally show ?thesis .
qed

lemma ease_in_out_below_one:
  assumes "0 \<le> t" "t < 1"
  shows "ease_in_out t < 1"
proof -
  have "1 - ease_in_out t = (1 - t) * (1 - t) * (1 + 2 * t)"
    by (simp add: ease_in_out_def algebra_simps)
  moreover have "0 < (1 - t) * (1 - t) * (1 + 2 * t)"
    using assms by (intro mult_pos_pos) auto
  ultimately show ?thesis by linarith
qed

lemma ease_24_25: "ease_in_out (24 / 25) = 15552 / 15625"
  by (simp add: ease_in_out_def)


lemma interp_bounds_nth:
  "k < 4 \<Longrightarrow> interp_bounds a b t ! k = a ! k + (b ! k - a ! k) * t"
  by (simp add: interp_bounds_def)

lemma interp_bounds_start: "length a = 4 \<Longrightarrow> interp_bounds a b 0 = a"
  by (simp add: interp_bounds_list list4)

text \<open>
  Claim C5. A zoom phase from \<open>a\<close> to \<open>b\<close> over \<open>n\<close> frames saves \<open>n\<close> frames; frame
  \<open>i\<close> has each of the four bounds equal to \<open>a[k] + (b[k] - a[k]) * ease (i / n)\<close>; frame
  \<open>0\<close> is \<open>a\<close> exactly. The last frame uses \<open>ease ((n - 1) / n)\<close>, which is below \<open>1\<close>, and
  falls short of \<open>b\<close> in bound \<open>k\<close> by the residual
  \<open>(b[k] - a[k]) * (1 - ease ((n - 1) / n))\<close>: it differs from \<open>b[k]\<close> wherever \<open>a[k]\<close>
  does, so the last frame of a zoom between two different viewports is not \<open>b\<close>. For
  \<open>n = 25\<close> the residual of frame 24 is \<open>(b[k] - a[k]) * 73 / 15625\<close>, from
  \<open>ease (24 / 25) = 15552 / 15625\<close>.
\<close>

theorem zoom_phase_interpolation:
  "length (new_frames st (zoom_phase rnd n a b hl cap st)) = n \<and>
   (\<forall>i<n. viewport (new_frames st (zoom_phase rnd n a b hl cap st) ! i)
            = [a ! 0 + (b ! 0 - a ! 0) * ease_in_out (real i / real n),
               a ! 1 + (b ! 1 - a ! 1) * ease_in_out (real i / real n),
               a ! 2 + (b ! 2 - a ! 2) * ease_in_out (real i / real n),
               a ! 3 + (b ! 3 - a ! 3) * ease_in_out (real i / real n)]) \<and>
   (0 < n \<and> length a = 4 \<longrightarrow>
      viewport (new_frames st (zoom_phase rnd n a b hl cap st) ! 0) = a) \<and>
   (\<forall>k<4. 0 < n \<longrightarrow>
      viewport (new_frames st (zoom_phase rnd n a b hl cap st) ! (n - 1)) ! k
        = b ! k - (b ! k - a ! k) * (1 - ease_in_out (real (n - 1) / real n)) \<and>
      (viewport (new_frames st (zoom_phase rnd n a b hl cap st) ! (n - 1)) ! k = b ! k
         \<longleftrightarrow> a ! k = b ! k)) \<and>
   (\<forall>k<4. n = 25 \<longrightarrow>
      viewport (new_frames st (zoom_phase rnd n a b hl cap st) ! 24) ! k
        = b ! k - (b ! k - a ! k) * (73 / 15625)) \<and>
   (0 < n \<longrightarrow> ease_in_out (real (n - 1) / real n) < 1) \<and>
   (0 < n \<and> length a = 4 \<and> length b = 4 \<and> a \<noteq> b \<longrightarrow>
      viewport (new_frames st (zoom_phase rnd n a b hl cap st) ! (n - 1)) \<noteq> b)"
proof (intro conjI allI impI)
  show "length (new_frames st (zoom_phase rnd n a b hl cap st)) = n"
    by (rule length_new_frames_zoom)
next
  fix i assume "i < n"
  then show "viewport (new_frames st (zoom_phase rnd n a b hl cap st) ! i)
            = [a ! 0 + (b ! 0 - a ! 0) * ease_in_out (real i / real n),
               a ! 1 + (b ! 1 - a ! 1) * ease_in_out (real i / real n),
               a ! 2 + (b ! 2 - a ! 2) * ease_in_out (real i / real n),
               a ! 3 + (b ! 3 - a ! 3) * ease_in_out (real i / real n)]"
    by (simp add: zoom_frame_viewport interp_bounds_list)
next
  assume "0 < n \<and> length a = 4"
  then show "viewport (new_frames st (zoom_phase rnd n a b hl cap st) ! 0) = a"
    by (simp add: zoom_frame_viewport interp_bounds_start ease_in_out_def)
next
  fix k :: nat assume k: "k < 4" and n: "0 < n"
  let ?e = "ease_in_out (real (n - 1) / real n)"
  have last: "viewport (new_frames st (zoom_phase rnd n a b hl cap st) ! (n - 1)) ! k
      = a ! k + (b ! k - a ! k) * ?e"
    using k n by (simp add: zoom_frame_viewport interp_bounds_nth)
  show res: "viewport (new_frames st (zoom_phase rnd n a b hl cap st) ! (n - 1)) ! k
      = b ! k - (b ! k - a ! k) * (1 - ?e)"
    unfolding last by (simp add: algebra_simps)
  have "real (n - 1) / real n < 1" "0 \<le> real (n - 1) / real n"
    using n by simp_all
  then have "?e < 1" using ease_in_out_below_one by blast
  then have "(b ! k - a ! k) * (1 - ?e) = 0 \<longleftrightarrow> a ! k = b ! k"
    by auto
  then show "viewport (new_frames st (zoom_phase rnd n a b hl cap st) ! (n - 1)) ! k = b ! k
      \<longleftrightarrow> a ! k = b ! k"
    unfolding res by auto
next
  fix k :: nat assume k: "k < 4" and n: "n = 25"
  have "viewport (new_frames st (zoom_phase rnd 25 a b hl cap st) ! 24) ! k
      = a ! k + (b ! k - a ! k) * ease_in_out (24 / 25)"
    using k by (simp add: zoom_frame_viewport interp_bounds_nth)
  also have "\<dots> = b ! k - (b ! k - a ! k) * (73 / 15625)"
    unfolding ease_24_25 by (simp add: field_simps)
  finally show "viewport (new_frames st (zoom_phase rnd n a b hl cap st) ! 24) ! k
      = b ! k - (b ! k - a ! k) * (73 / 15625)"
    unfolding n .
next
  assume n: "0 < n"
  have "real (n - 1) / real n < 1" "0 \<le> real (n - 1) / real n"
    using n by simp_all
  then show "ease_in_out (real (n - 1) / real n) < 1"
    using ease_in_out_below_one by blast
next
  assume h: "0 < n \<and> length a = 4 \<and> length b = 4 \<and> a \<noteq> b"
  let ?e = "ease_in_out (real (n - 1) / real n)"
  let ?last = "viewport (new_frames st (zoom_phase rnd n a b hl cap st) ! (n - 1))"
  from h obtain k where k: "k < 4" and differ: "a ! k \<noteq> b ! k"
    using nth_equalityI [of a b] by auto
  have "real (n - 1) / real n < 1" "0 \<le> real (n - 1) / real n"
    using h by simp_all
  then have e: "?e < 1" using ease_in_out_below_one by blast
  have "?last ! k = a ! k + (b ! k - a ! k) * ?e"
    using k h by (simp add: zoom_frame_viewport interp_bounds_nth)
  then have "?last ! k - b ! k = (a ! k - b ! k) * (1 - ?e)"
    by (simp add: algebra_simps)
  then have "?last ! k \<noteq> b ! k"
    using differ e by auto
  then show "?last \<noteq> b" by auto
qed

theorem zoom_phase_interpolation_witness:
  "viewport (new_frames \<lparr>frame_count = 0, rng_pos = 0, frames = []\<rparr>
      (zoom_phase (\<lambda>k. 1 / 2) 25 [-170, 170, -55, 85] [0, 10, 0, 20] [] ''Scanning: A''
         \<lparr>frame_count = 0, rng_pos = 0, frames = []\<rparr>) ! 0) = [-170, 170, -55, 85] \<and>
   viewport (new_frames \<lparr>frame_count = 0, rng_pos = 0, frames = []\<rparr>
      (zoom_phase (\<lambda>k. 1 / 2) 25 [-170, 170, -55, 85] [0, 10, 0, 20] [] ''Scanning: A''
         \<lparr>frame_count = 0, rng_pos = 0, frames = []\<rparr>) ! 24) ! 1 = 10 + 160 * (73 / 15625) \<and>
   viewport (new_frames \<lparr>frame_count = 0, rng_pos = 0, frames = []\<rparr>
      (zoom_phase (\<lambda>k. 1 / 2) 25 [-170, 170, -55, 85] [0, 10, 0, 20] [] ''Scanning: A''
         \<lparr>frame_count = 0, rng_pos = 0, frames = []\<rparr>) ! 24) ! 1 \<noteq> 10 \<and>
   viewport (new_frames \<lparr>frame_count = 0, rng_pos = 0, frames = []\<rparr>
      (zoom_phase (\<lambda>k. 1 / 2) 25 [-170, 170, -55, 85] [0, 10, 0, 20] [] ''Scanning: A''
         \<lparr>frame_count = 0, rng_pos = 0, frames = []\<rparr>) ! 24) \<noteq> [0, 10, 0, 20] \<and>
   ease_in_out (24 / 25) < 1"
proof -
  let ?st = "\<lparr>frame_count = 0, rng_pos = 0, frames = []\<rparr>"
  let ?z = "zoom_phase (\<lambda>k. 1 / 2) 25 [-170, 170, -55, 85] [0, 10, 0, 20] [] ''Scanning: A'' ?st"
  note t = zoom_phase_interpolation
    [where st = ?st and rnd = "\<lambda>k. 1 / 2" and n = 25 and a = "[-170, 170, -55, 85]"
       and b = "[0, 10, 0, 20]" and hl = "[]" and cap = "''Scanning: A''"]
  have first: "viewport (new_frames ?st ?z ! 0) = [-170, 170, -55, 85]"
    using t by simp
  have "\<forall>k<4. (25::nat) = 25 \<longrightarrow> viewport (new_frames ?st ?z ! 24) ! k
      = [0, 10, 0, 20] ! k - ([0, 10, 0, 20] ! k - [-170, 170, -55, 85] ! k) * (73 / 15625)"
    using t by blast
  then have last: "viewport (new_frames ?st ?z ! 24) ! 1 = 10 + 160 * (73 / 15625)"
    by simp
  then have differ: "viewport (new_frames ?st ?z ! 24) ! 1 \<noteq> 10"
    by simp
  have "(0::nat) < 25 \<and> length [-170, 170, -55, 85 :: real] = 4
      \<and> length [0, 10, 0, 20 :: real] = 4 \<and> [-170, 170, -55, 85] \<noteq> [0, 10, 0, 20 :: real]"
    by simp
  moreover have "(0::nat) < 25 \<and> length [-170, 170, -55, 85 :: real] = 4
      \<and> length [0, 10, 0, 20 :: real] = 4 \<and> [-170, 170, -55, 85] \<noteq> [0, 10, 0, 20 :: real]
      \<longrightarrow> viewport (new_frames ?st ?z ! (25 - 1)) \<noteq> [0, 10, 0, 20]"
    using t by blast
  ultimately have whole: "viewport (new_frames ?st ?z ! 24) \<noteq> [0, 10, 0, 20]"
    by simp
  have "(0::nat) < 25 \<longrightarrow> ease_in_out (real (25 - 1 :: nat) / real (25 :: nat)) < 1"
    using t by blast
  then have below: "ease_in_out (24 / 25) < 1" by simp
  show ?thesis
    by (intro conjI first last differ whole below)
qed

section \<open>Holding with and without shake\<close>

lemma play_hold_plan_zero:
  "length c = 4 \<Longrightarrow> play rnd p (hold_plan n c 0) = replicate n c"
  by (induction n arbitrary: p) (simp_all add: hold_plan_def shaken_zero list4)

text \<open>
  Claim C7. A hold phase with shake intensity \<open>0\<close> on a viewport \<open>c\<close> saves \<open>m\<close> frames
  whose viewports are all \<open>c\<close>, whatever numbers the generator returns.
\<close>

theorem hold_without_shake_is_constant:
  assumes "length c = 4"
  shows "map viewport (new_frames st (hold_phase rnd m c hl cap 0 st)) = replicate m c"
  using assms by (simp add: new_frames_hold play_hold_plan_zero)

theorem hold_without_shake_is_constant_witness:
  "map viewport (new_frames \<lparr>frame_count = 0, rng_pos = 0, frames = []\<rparr>
      (hold_phase (\<lambda>k. 1 / 3) 45 [-170, 170, -55, 85] [] ''Initiating Scan...'' 0
         \<lparr>frame_count = 0, rng_pos = 0, frames = []\<rparr>))
     = replicate 45 [-170, 170, -55, 85]"
proof -
  have l: "length [-170, 170, -55, 85 :: real] = 4" by simp
  show ?thesis
    using hold_without_shake_is_constant
      [OF l, where st = "\<lparr>frame_count = 0, rng_pos = 0, frames = []\<rparr>" and rnd = "\<lambda>k. 1 / 3"
         and m = 45 and hl = "[]" and cap = "''Initiating Scan...''"]
    by simp
qed

lemma uniform_range:
  assumes "0 \<le> s" "0 \<le> r" "r \<le> 1"
  shows "- s \<le> uniform (- s) s r" "uniform (- s) s r \<le> s"
proof -
  have u: "uniform (- s) s r = - s + 2 * s * r" by (simp add: uniform_def)
  have "0 \<le> 2 * s * r" using assms by simp
  then show "- s \<le> uniform (- s) s r" unfolding u by linarith
  have "2 * s * r \<le> 2 * s * 1" using assms by (intro mult_left_mono) auto
  then show "uniform (- s) s r \<le> s" unfolding u by linarith
qed

lemma shaken_cong:
  "rnd' p' = rnd p \<Longrightarrow> rnd' (p' + 1) = rnd (p + 1) \<Longrightarrow> shaken rnd' s p' c = shaken rnd s p c"
  by (simp add: shaken_def)

lemma play_hold_plan:
  "play rnd p (hold_plan n c s) = map (\<lambda>i. shaken rnd s (p + 2 * i) c) [0..<n]"
proof (rule nth_equalityI)
  show "length (play rnd p (hold_plan n c s)) = length (map (\<lambda>i. shaken rnd s (p + 2 * i) c) [0..<n])"
    by (simp add: length_play length_hold_plan)
next
  fix i assume "i < length (play rnd p (hold_plan n c s))"
  then have "i < n" by (simp add: length_play length_hold_plan)
  then show "play rnd p (hold_plan n c s) ! i = map (\<lambda>i. shaken rnd s (p + 2 * i) c) [0..<n] ! i"
    by (simp add: play_nth length_hold_plan hold_plan_def)
qed

text \<open>
  Claim C8. With an intensity \<open>s \<ge> 0\<close> and a generator whose draws lie in \<open>[0, 1)\<close>, a
  hold phase on \<open>c\<close> saves \<open>m\<close> frames; the viewport of frame \<open>i\<close> is \<open>c\<close> moved
  horizontally by one offset and vertically by another, from two separate draws (the
  draws \<open>2 i\<close> and \<open>2 i + 1\<close> after those consumed before the phase), each offset in
  \<open>[-s, s]\<close>. The offsets are a function of the draws alone: a second run whose
  generator returns the same \<open>2 m\<close> numbers (the same seed) saves the same viewports.
\<close>

theorem hold_phase_offsets:
  assumes s: "0 \<le> s" and rnd: "unit_draws rnd"
  shows "length (new_frames st (hold_phase rnd m c hl cap s st)) = m \<and>
    (\<forall>i<m.
       viewport (new_frames st (hold_phase rnd m c hl cap s st) ! i)
         = [c ! 0 + uniform (- s) s (rnd (rng_pos st + 2 * i)),
            c ! 1 + uniform (- s) s (rnd (rng_pos st + 2 * i)),
            c ! 2 + uniform (- s) s (rnd (rng_pos st + 2 * i + 1)),
            c ! 3 + uniform (- s) s (rnd (rng_pos st + 2 * i + 1))] \<and>
       - s \<le> uniform (- s) s (rnd (rng_pos st + 2 * i)) \<and>
       uniform (- s) s (rnd (rng_pos st + 2 * i)) \<le> s \<and>
       - s \<le> uniform (- s) s (rnd (rng_pos st + 2 * i + 1)) \<and>
       uniform (- s) s (rnd (rng_pos st + 2 * i + 1)) \<le> s) \<and>
    (\<forall>rnd' st' hl' cap'.
       (\<forall>k<2 * m. rnd' (rng_pos st' + k) = rnd (rng_pos st + k)) \<longrightarrow>
       map viewport (new_frames st' (hold_phase rnd' m c hl' cap' s st'))
         = map viewport (new_frames st (hold_phase rnd m c hl cap s st)))"
proof (intro conjI allI impI)
  show "length (new_frames st (hold_phase rnd m c hl cap s st)) = m"
    by (rule length_new_frames_hold)
next
  fix i assume "i < m"
  then show "viewport (new_frames st (hold_phase rnd m c hl cap s st) ! i)
         = [c ! 0 + uniform (- s) s (rnd (rng_pos st + 2 * i)),
            c ! 1 + uniform (- s) s (rnd (rng_pos st + 2 * i)),
            c ! 2 + uniform (- s) s (rnd (rng_pos st + 2 * i + 1)),
            c ! 3 + uniform (- s) s (rnd (rng_pos st + 2 * i + 1))]"
    by (simp add: hold_frame_viewport shaken_def Let_def)
next
  fix i
  have r: "0 \<le> rnd k" "rnd k \<le> 1" for k
    using rnd unfolding unit_draws_def by (auto simp: less_imp_le)
  show "- s \<le> uniform (- s) s (rnd (rng_pos st + 2 * i))"
    "uniform (- s) s (rnd (rng_pos st + 2 * i)) \<le> s"
    "- s \<le> uniform (- s) s (rnd (rng_pos st + 2 * i + 1))"
    "uniform (- s) s (rnd (rng_pos st + 2 * i + 1)) \<le> s"
    using uniform_range [OF s r] by blast+
next
  fix rnd' :: "nat \<Rightarrow> real" and st' :: render_state and hl' :: "string list" and cap' :: string
  assume same: "\<forall>k<2 * m. rnd' (rng_pos st' + k) = rnd (rng_pos st + k)"
  have "shaken rnd' s (rng_pos st' + 2 * i) c = shaken rnd s (rng_pos st + 2 * i) c"
    if "i < m" for i
  proof (rule shaken_cong)
    show "rnd' (rng_pos st' + 2 * i) = rnd (rng_pos st + 2 * i)"
      using same that by simp
    have "2 * i + 1 < 2 * m" using that by simp
    then have "rnd' (rng_pos st' + (2 * i + 1)) = rnd (rng_pos st + (2 * i + 1))"
      using same by blast
    then show "rnd' (rng_pos st' + 2 * i + 1) = rnd (rng_pos st + 2 * i + 1)"
      by (simp add: add.assoc)
  qed
  then show "map viewport (new_frames st' (hold_phase rnd' m c hl' cap' s st'))
         = map viewport (new_frames st (hold_phase rnd m c hl cap s st))"
    by (simp add: new_frames_hold play_hold_plan)
qed

theorem hold_phase_offsets_witness:
  "viewport (new_frames \<lparr>frame_count = 0, rng_pos = 0, frames = []\<rparr>
      (hold_phase (\<lambda>k. real (k mod 4) / 4) 2 [0, 10, 0, 20] [''A''] ''TARGET LOCKED: A'' (8 / 10)
         \<lparr>frame_count = 0, rng_pos = 0, frames = []\<rparr>) ! 1) = [0, 10, 2 / 5, 102 / 5] \<and>
   - (8 / 10) \<le> uniform (- (8 / 10)) (8 / 10) (real (3 mod 4) / 4) \<and>
   uniform (- (8 / 10)) (8 / 10) (real (3 mod 4) / 4) \<le> 8 / 10 \<and>
   map viewport (new_frames \<lparr>frame_count = 0, rng_pos = 0, frames = []\<rparr>
      (hold_phase (\<lambda>k. if k < 4 then real (k mod 4) / 4 else 9 / 10) 2 [0, 10, 0, 20] [] ''again''
         (8 / 10) \<lparr>frame_count = 0, rng_pos = 0, frames = []\<rparr>))
     = map viewport (new_frames \<lparr>frame_count = 0, rng_pos = 0, frames = []\<rparr>
      (hold_phase (\<lambda>k. real (k mod 4) / 4) 2 [0, 10, 0, 20] [''A''] ''TARGET LOCKED: A'' (8 / 10)
         \<lparr>frame_count = 0, rng_pos = 0, frames = []\<rparr>))"
proof -
  let ?st = "\<lparr>frame_count = 0, rng_pos = 0, frames = []\<rparr>"
  let ?rnd = "\<lambda>k::nat. real (k mod 4) / 4"
  let ?rnd' = "\<lambda>k::nat. if k < 4 then real (k mod 4) / 4 else 9 / 10"
  have s: "(0::real) \<le> 8 / 10" by simp
  have u: "unit_draws ?rnd" by (simp add: unit_draws_def)
  note t = hold_phase_offsets
    [OF s u, where st = ?st and m = 2 and c = "[0, 10, 0, 20]" and hl = "[''A'']"
       and cap = "''TARGET LOCKED: A''"]
  have one: "(1::nat) < 2" by simp
  have v: "viewport (new_frames ?st
        (hold_phase ?rnd 2 [0, 10, 0, 20] [''A''] ''TARGET LOCKED: A'' (8 / 10) ?st) ! 1)
      = [0, 10, 2 / 5, 102 / 5]"
    and lo: "- (8 / 10) \<le> uniform (- (8 / 10)) (8 / 10) (real (3 mod 4) / 4)"
    and hi: "uniform (- (8 / 10)) (8 / 10) (real (3 mod 4) / 4) \<le> 8 / 10"
    using t [THEN conjunct2, THEN conjunct1, rule_format, OF one]
    by (simp_all add: uniform_def)
  have same: "\<forall>k<2 * 2. ?rnd' (rng_pos ?st + k) = ?rnd (rng_pos ?st + k)" by simp
  have d: "map viewport (new_frames ?st
        (hold_phase ?rnd' 2 [0, 10, 0, 20] [] ''again'' (8 / 10) ?st))
      = map viewport (new_frames ?st
        (hold_phase ?rnd 2 [0, 10, 0, 20] [''A''] ''TARGET LOCKED: A'' (8 / 10) ?st))"
    using t [THEN conjunct2, THEN conjunct2, THEN spec [where x = ?rnd'],
        THEN spec [where x = ?st], THEN spec [where x = "[]"], THEN spec [where x = "''again''"],
        THEN mp, OF same] .
  show ?thesis using v lo hi d by blast
qed

section \<open>No degenerate viewport\<close>

lemma ease_in_out_unit:
  assumes "0 \<le> t" "t \<le> 1"
  shows "0 \<le> ease_in_out t" "ease_in_out t \<le> 1"
proof -
  have "ease_in_out 0 \<le> ease_in_out t" using assms by (intro ease_in_out_mono) auto
  then show "0 \<le> ease_in_out t" by (simp add: ease_in_out_def)
  have "ease_in_out t \<le> ease_in_out 1" using assms by (intro ease_in_out_mono) auto
  then show "ease_in_out t \<le> 1" by (simp add: ease_in_out_def)
qed

lemma convex_less:
  fixes t :: real
  assumes "x0 < x1" "y0 < y1" "0 \<le> t" "t \<le> 1"
  shows "x0 + (y0 - x0) * t < x1 + (y1 - x1) * t"
proof -
  have "(x1 + (y1 - x1) * t) - (x0 + (y0 - x0) * t) = (1 - t) * (x1 - x0) + t * (y1 - y0)"
    by (simp add: algebra_simps)
  moreover have "0 < (1 - t) * (x1 - x0) + t * (y1 - y0)"
  proof (cases "t = 0")
    case True
    then show ?thesis using assms by simp
  next
    case False
    then have "0 < t * (y1 - y0)" using assms by simp
    moreover have "0 \<le> (1 - t) * (x1 - x0)" using assms by simp
    ultimately show ?thesis by linarith
  qed
  ultimately show ?thesis by linarith
qed

lemma valid_interp_bounds:
  assumes "valid_viewport a" "valid_viewport b" "0 \<le> t" "t \<le> 1"
  shows "valid_viewport (interp_bounds a b t)"
  using assms convex_less [of "a ! 0" "a ! 1" "b ! 0" "b ! 1" t]
    convex_less [of "a ! 2" "a ! 3" "b ! 2" "b ! 3" t]
  by (simp add: valid_viewport_def interp_bounds_list)

lemma valid_shaken: "valid_viewport b \<Longrightarrow> valid_viewport (shaken rnd s p b)"
  by (simp add: valid_viewport_def shaken_def Let_def)

lemma valid_WORLD_BOUNDS: "valid_viewport WORLD_BOUNDS"
  by (simp add: valid_viewport_def WORLD_BOUNDS_def)

lemma valid_zoom_plan:
  assumes "valid_viewport a" "valid_viewport b"
  shows "\<forall>x \<in> set (zoom_plan n a b). valid_viewport (fst x)"
proof
  fix x assume "x \<in> set (zoom_plan n a b)"
  then obtain i where i: "i < n" and x: "x = (interp_bounds a b (ease_in_out (real i / real n)), 0)"
    by (auto simp: zoom_plan_def)
  have "0 \<le> real i / real n" "real i / real n \<le> 1" using i by simp_all
  then have "0 \<le> ease_in_out (real i / real n)" "ease_in_out (real i / real n) \<le> 1"
    using ease_in_out_unit by blast+
  then show "valid_viewport (fst x)"
    unfolding x using assms by (simp add: valid_interp_bounds)
qed

lemma valid_hold_plan:
  "valid_viewport c \<Longrightarrow> \<forall>x \<in> set (hold_plan n c s). valid_viewport (fst x)"
  by (simp add: hold_plan_def)

lemma valid_targets_plan:
  assumes "valid_viewport current" "\<forall>r \<in> set regions. valid_viewport r"
  shows "\<forall>x \<in> set (targets_plan tm current regions). valid_viewport (fst x)"
  using assms
proof (induction regions arbitrary: current)
  case Nil
  then show ?case
    using valid_zoom_plan [OF Nil(1) valid_WORLD_BOUNDS] valid_hold_plan [OF valid_WORLD_BOUNDS]
    by fastforce
next
  case (Cons r rs)
  have r: "valid_viewport r" and rs: "\<forall>r \<in> set rs. valid_viewport r"
    using Cons.prems by simp_all
  show ?case
    using valid_zoom_plan [OF Cons.prems(1) r] valid_hold_plan [OF r] Cons.IH [OF r rs]
    by fastforce
qed

lemma valid_timeline:
  assumes "\<forall>r \<in> set regions. valid_viewport r"
  shows "\<forall>x \<in> set (timeline tm regions). valid_viewport (fst x)"
  using valid_targets_plan [OF valid_WORLD_BOUNDS assms] valid_hold_plan [OF valid_WORLD_BOUNDS]
  by (fastforce simp: timeline_def)

lemma valid_play:
  "\<forall>x \<in> set plan. valid_viewport (fst x) \<Longrightarrow> \<forall>v \<in> set (play rnd p plan). valid_viewport v"
  by (induction plan arbitrary: p) (auto simp: valid_shaken)

lemma valid_mapped:
  assumes "map viewport fs = vs" "\<forall>v \<in> set vs. valid_viewport v"
  shows "\<forall>f \<in> set fs. valid_viewport (viewport f)"
  using assms by auto

lemma frames_valid_phase:
  assumes "\<forall>f \<in> set (frames st). valid_viewport (viewport f)"
  shows "valid_viewport a \<Longrightarrow> valid_viewport b \<Longrightarrow>
           \<forall>f \<in> set (frames (zoom_phase rnd n a b hl cap st)). valid_viewport (viewport f)"
    and "valid_viewport c \<Longrightarrow>
           \<forall>f \<in> set (frames (hold_phase rnd n c hl cap s st)). valid_viewport (viewport f)"
proof -
  have old: "\<forall>v \<in> set (map viewport (frames st)). valid_viewport v"
    using assms by simp
  show "\<forall>f \<in> set (frames (zoom_phase rnd n a b hl cap st)). valid_viewport (viewport f)"
    if "valid_viewport a" "valid_viewport b"
  proof (rule valid_mapped [OF zoom_phase_frames(3)])
    have "\<forall>v \<in> set (play rnd (rng_pos st) (zoom_plan n a b)). valid_viewport v"
      using that by (intro valid_play valid_zoom_plan)
    then show "\<forall>v \<in> set (map viewport (frames st) @ play rnd (rng_pos st) (zoom_plan n a b)).
        valid_viewport v"
      using old by auto
  qed
  show "\<forall>f \<in> set (frames (hold_phase rnd n c hl cap s st)). valid_viewport (viewport f)"
    if "valid_viewport c"
  proof (rule valid_mapped [OF hold_phase_frames(3)])
    have "\<forall>v \<in> set (play rnd (rng_pos st) (hold_plan n c s)). valid_viewport v"
      using that by (intro valid_play valid_hold_plan)
    then show "\<forall>v \<in> set (map viewport (frames st) @ play rnd (rng_pos st) (hold_plan n c s)).
        valid_viewport v"
      using old by auto
  qed
qed

text \<open>
  The same through a run that may raise: a region of numbers is a viewport with
  \<open>max > min\<close>, a NaN region ends the run and saves nothing.
\<close>

lemma zoom_to_valid:
  assumes "\<forall>f \<in> set (frames st). valid_viewport (viewport f)"
    and "\<forall>a. current = Finite a \<longrightarrow> valid_viewport a"
    and "\<forall>b. target = Finite b \<longrightarrow> valid_viewport b"
  shows "\<forall>f \<in> set (saved (zoom_to rnd n current target hl cap st)). valid_viewport (viewport f)"
  using assms frames_valid_phase(1) [OF assms(1)]
  by (cases current; cases target) (simp_all add: zoom_to_def saved_def)

lemma hold_on_valid:
  assumes "\<forall>f \<in> set (frames st). valid_viewport (viewport f)"
    and "\<forall>c. bounds = Finite c \<longrightarrow> valid_viewport c"
  shows "\<forall>f \<in> set (saved (hold_on rnd n bounds hl cap s st)). valid_viewport (viewport f)"
  using assms frames_valid_phase(2) [OF assms(1)]
  by (cases bounds) (simp_all add: hold_on_def saved_def)

lemma country_step_valid:
  assumes inv: "\<forall>f \<in> set (frames st). valid_viewport (viewport f)"
    and cur: "\<forall>a. current = Finite a \<longrightarrow> valid_viewport a"
    and tgt: "\<forall>b. get_target_bounds world country 15 = Finite b \<longrightarrow> valid_viewport b"
  shows "country_step tm rnd world country (current, hl, st) = Raised st' \<Longrightarrow>
           \<forall>f \<in> set (frames st'). valid_viewport (viewport f)"
    and "country_step tm rnd world country (current, hl, st) = Done (current', hl', st') \<Longrightarrow>
           (\<forall>f \<in> set (frames st'). valid_viewport (viewport f)) \<and>
           (\<forall>a. current' = Finite a \<longrightarrow> valid_viewport a)"
proof -
  let ?t = "get_target_bounds world country 15"
  let ?z = "zoom_to rnd (zoom_frames tm) current ?t hl (''Scanning: '' @ country) st"
  have z: "\<forall>f \<in> set (saved ?z). valid_viewport (viewport f)"
    by (rule zoom_to_valid [OF inv cur tgt])
  have h: "\<forall>f \<in> set (saved (hold_on rnd (hold_frames tm) ?t (hl @ [country])
        (''TARGET LOCKED: '' @ country) (shake tm) st1)). valid_viewport (viewport f)"
    if "?z = Done st1" for st1
  proof (rule hold_on_valid [OF _ tgt])
    show "\<forall>f \<in> set (frames st1). valid_viewport (viewport f)"
      using z that by (simp add: saved_def)
  qed
  show "\<forall>f \<in> set (frames st'). valid_viewport (viewport f)"
    if "country_step tm rnd world country (current, hl, st) = Raised st'"
    using that z h
    by (auto simp: country_step_def Let_def saved_def split: run.splits)
  show "(\<forall>f \<in> set (frames st'). valid_viewport (viewport f)) \<and>
        (\<forall>a. current' = Finite a \<longrightarrow> valid_viewport a)"
    if "country_step tm rnd world country (current, hl, st) = Done (current', hl', st')"
    using that z h tgt
    by (auto simp: country_step_def Let_def saved_def split: run.splits)
qed

lemma for_countries_valid:
  assumes "\<forall>f \<in> set (frames st). valid_viewport (viewport f)"
    and "\<forall>a. current = Finite a \<longrightarrow> valid_viewport a"
    and "\<forall>c \<in> set countries. \<forall>b. get_target_bounds world c 15 = Finite b \<longrightarrow> valid_viewport b"
  shows "(for_countries (country_step tm rnd world) countries (current, hl, st) = Raised st' \<longrightarrow>
           (\<forall>f \<in> set (frames st'). valid_viewport (viewport f))) \<and>
         (for_countries (country_step tm rnd world) countries (current, hl, st)
            = Done (current', hl', st') \<longrightarrow>
           (\<forall>f \<in> set (frames st'). valid_viewport (viewport f)) \<and>
           (\<forall>a. current' = Finite a \<longrightarrow> valid_viewport a))"
  using assms
proof (induction countries arbitrary: current hl st)
  case Nil
  then show ?case by simp
next
  case (Cons c cs)
  have tgt: "\<forall>b. get_target_bounds world c 15 = Finite b \<longrightarrow> valid_viewport b"
    and rest: "\<forall>c \<in> set cs. \<forall>b. get_target_bounds world c 15 = Finite b \<longrightarrow> valid_viewport b"
    using Cons.prems(3) by simp_all
  show ?case
  proof (cases "country_step tm rnd world c (current, hl, st)")
    case (Raised s1)
    then show ?thesis
      using country_step_valid(1) [OF Cons.prems(1,2) tgt Raised] by simp
  next
    case (Done acc)
    obtain c1 h1 s1 where acc: "acc = (c1, h1, s1)" by (cases acc) auto
    have step: "country_step tm rnd world c (current, hl, st) = Done (c1, h1, s1)"
      using Done acc by simp
    have s1: "\<forall>f \<in> set (frames s1). valid_viewport (viewport f)"
      and c1: "\<forall>a. c1 = Finite a \<longrightarrow> valid_viewport a"
      using country_step_valid(2) [OF Cons.prems(1,2) tgt step] by blast+
    show ?thesis
      using Cons.IH [OF s1 c1 rest, where hl = h1] by (simp add: step)
  qed
qed

lemma animation_sequence_valid:
  assumes "\<forall>c \<in> set countries. \<forall>b. get_target_bounds world c 15 = Finite b \<longrightarrow> valid_viewport b"
  shows "\<forall>f \<in> set (saved (animation_sequence tm rnd world countries)). valid_viewport (viewport f)"
proof -
  let ?st0 = "\<lparr>frame_count = 0, rng_pos = 0, frames = []\<rparr>"
  let ?st1 = "hold_phase rnd (intro_frames tm) WORLD_BOUNDS [] ''Initiating Scan...'' 0 ?st0"
  have w: "\<forall>a. Finite WORLD_BOUNDS = Finite a \<longrightarrow> valid_viewport a"
    using valid_WORLD_BOUNDS by simp
  have st0: "\<forall>f \<in> set (frames ?st0). valid_viewport (viewport f)" by simp
  have st1: "\<forall>f \<in> set (frames ?st1). valid_viewport (viewport f)"
    by (rule frames_valid_phase(2) [OF st0 valid_WORLD_BOUNDS])
  show ?thesis
  proof (cases "for_countries (country_step tm rnd world) countries (Finite WORLD_BOUNDS, [], ?st1)")
    case (Raised s2)
    have "\<forall>f \<in> set (frames s2). valid_viewport (viewport f)"
      using for_countries_valid [OF st1 w assms, where tm = tm and rnd = rnd and hl = "[]"
          and st' = s2] Raised
      by blast
    then show ?thesis
      by (simp add: animation_sequence_def hold_on_def Let_def Raised saved_def)
  next
    case (Done acc)
    obtain c2 h2 s2 where acc: "acc = (c2, h2, s2)" by (cases acc) auto
    have loop: "for_countries (country_step tm rnd world) countries (Finite WORLD_BOUNDS, [], ?st1)
        = Done (c2, h2, s2)"
      using Done acc by simp
    have s2: "\<forall>f \<in> set (frames s2). valid_viewport (viewport f)"
      and c2: "\<forall>a. c2 = Finite a \<longrightarrow> valid_viewport a"
      using for_countries_valid [OF st1 w assms, where tm = tm and rnd = rnd and hl = "[]"
          and current' = c2 and hl' = h2 and st' = s2] loop
      by blast+
    let ?z = "zoom_to rnd (zoom_frames tm) c2 (Finite WORLD_BOUNDS) h2
        ''Global Analysis Complete'' s2"
    have z: "\<forall>f \<in> set (saved ?z). valid_viewport (viewport f)"
      by (rule zoom_to_valid [OF s2 c2 w])
    show ?thesis
    proof (cases ?z)
      case (Raised s3)
      then show ?thesis
        using z by (simp add: animation_sequence_def hold_on_def Let_def loop saved_def)
    next
      case (Done s3)
      have s3: "\<forall>f \<in> set (frames s3). valid_viewport (viewport f)"
        using z Done by (simp add: saved_def)
      have "\<forall>f \<in> set (saved (hold_on rnd (outro_frames tm) (Finite WORLD_BOUNDS) h2
          ''The Truth is Out There...'' 0 s3)). valid_viewport (viewport f)"
        by (rule hold_on_valid [OF s3 w])
      then show ?thesis
        by (simp add: animation_sequence_def Let_def loop Done hold_on_def)
    qed
  qed
qed

text \<open>
  What \<open>get_target_bounds\<close> returns for ordered bounds and a positive padding: a viewport
  with \<open>max > min\<close> whenever it returns numbers.
\<close>

lemma valid_get_target_bounds:
  assumes "\<And>minx miny maxx maxy.
     gdf country_name = Found (minx, miny, maxx, maxy) \<Longrightarrow> minx \<le> maxx \<and> miny \<le> maxy"
    and pad: "0 < pad"
  shows "\<forall>b. get_target_bounds gdf country_name pad = Finite b \<longrightarrow> valid_viewport b"
proof (cases "country_name = ''World''")
  case True
  then show ?thesis
    using valid_WORLD_BOUNDS by (simp add: get_target_bounds_def)
next
  case name: False
  show ?thesis
  proof (cases "gdf country_name")
    case Lookup_error
    then show ?thesis
      using valid_WORLD_BOUNDS name by (simp add: get_target_bounds_def)
  next
    case No_rows
    then show ?thesis
      using name by (simp add: get_target_bounds_def)
  next
    case (Found raw)
    obtain minx miny maxx maxy where raw: "raw = (minx, miny, maxx, maxy)"
      by (cases raw) auto
    have found: "gdf country_name = Found (minx, miny, maxx, maxy)"
      using Found raw by simp
    have ord: "minx \<le> maxx" "miny \<le> maxy" using assms(1) [OF found] by simp_all
    define w where "w = (maxx - minx) + pad"
    define h where "h = (maxy - miny) + pad"
    have w: "0 < w" and h: "0 < h" using ord pad by (simp_all add: w_def h_def)
    show ?thesis
    proof (cases "wider_than w h (9 / 16)")
      case True
      then show ?thesis
        using name found w h
        by (auto simp: get_target_bounds_def Let_def valid_viewport_def w_def [symmetric]
            h_def [symmetric])
    next
      case False
      then show ?thesis
        using name found w h
        by (auto simp: get_target_bounds_def Let_def valid_viewport_def w_def [symmetric]
            h_def [symmetric])
    qed
  qed
qed

text \<open>
  Claim C9. Every viewport saved has \<open>max-x > min-x\<close> and \<open>max-y > min-y\<close>: the frames
  of a zoom phase between two such viewports, the frames of a hold phase on such a
  viewport whatever the shake, and so every frame of the animation sequence when the
  regions of its targets are such viewports; that is the case in \<open>create_video\<close> as
  soon as the bounds the map data returns are ordered.
\<close>

theorem emitted_viewports_valid:
  "(valid_viewport a \<and> valid_viewport b \<longrightarrow>
      (\<forall>f \<in> set (new_frames st (zoom_phase rnd n a b hl cap st)). valid_viewport (viewport f))) \<and>
   (valid_viewport c \<longrightarrow>
      (\<forall>f \<in> set (new_frames st (hold_phase rnd m c hl cap s st)). valid_viewport (viewport f))) \<and>
   ((\<forall>x \<in> set countries. valid_region (get_target_bounds world x 15)) \<longrightarrow>
      (\<forall>f \<in> set (saved (animation_sequence tm rnd world countries)).
         valid_viewport (viewport f))) \<and>
   ((\<forall>name minx miny maxx maxy.
        world name = Found (minx, miny, maxx, maxy) \<longrightarrow> minx \<le> maxx \<and> miny \<le> maxy) \<longrightarrow>
      (\<forall>f \<in> set (saved (create_video rnd world)). valid_viewport (viewport f)))"
proof (intro conjI impI)
  assume "valid_viewport a \<and> valid_viewport b"
  then have "\<forall>v \<in> set (play rnd (rng_pos st) (zoom_plan n a b)). valid_viewport v"
    by (intro valid_play valid_zoom_plan) auto
  then show "\<forall>f \<in> set (new_frames st (zoom_phase rnd n a b hl cap st)). valid_viewport (viewport f)"
    by (rule valid_mapped [OF new_frames_zoom])
next
  assume "valid_viewport c"
  then have "\<forall>v \<in> set (play rnd (rng_pos st) (hold_plan m c s)). valid_viewport v"
    by (intro valid_play valid_hold_plan)
  then show "\<forall>f \<in> set (new_frames st (hold_phase rnd m c hl cap s st)). valid_viewport (viewport f)"
    by (rule valid_mapped [OF new_frames_hold])
next
  assume "\<forall>x \<in> set countries. valid_region (get_target_bounds world x 15)"
  then have "\<forall>x \<in> set countries. \<forall>b. get_target_bounds world x 15 = Finite b \<longrightarrow> valid_viewport b"
    by auto
  then show "\<forall>f \<in> set (saved (animation_sequence tm rnd world countries)).
      valid_viewport (viewport f)"
    by (rule animation_sequence_valid)
next
  assume ord: "\<forall>name minx miny maxx maxy.
        world name = Found (minx, miny, maxx, maxy) \<longrightarrow> minx \<le> maxx \<and> miny \<le> maxy"
  have "\<forall>b. get_target_bounds world x 15 = Finite b \<longrightarrow> valid_viewport b" for x
    using ord by (intro valid_get_target_bounds) auto
  then have "\<forall>x \<in> set DATA_COUNTRIES. \<forall>b. get_target_bounds world x 15 = Finite b
      \<longrightarrow> valid_viewport b"
    by simp
  then show "\<forall>f \<in> set (saved (create_video rnd world)). valid_viewport (viewport f)"
    unfolding create_video_def by (rule animation_sequence_valid)
qed

theorem emitted_viewports_valid_witness:
  "list_all (\<lambda>f. valid_viewport (viewport f))
     (saved (animation_sequence
        \<lparr>intro_frames = 1, zoom_frames = 2, hold_frames = 2, outro_frames = 1, shake = 8 / 10\<rparr>
        (\<lambda>k. real (k mod 4) / 4)
        (\<lambda>n. if n = ''A'' then Found (0, 0, 10, 10)
              else if n = ''B'' then Found (20, 5, 40, 30) else No_rows)
        [''A'', ''B''])) \<and>
   list_all (\<lambda>f. valid_viewport (viewport f))
     (saved (create_video (\<lambda>k. real (k mod 4) / 4)
        (\<lambda>n. if n = ''United States of America'' then Found (-172, 19, -67, 71)
              else if n = ''Russia'' then Found (-180, 41, 180, 81)
              else if n = ''Brazil'' then Found (-74, -34, -35, 5)
              else if n = ''Australia'' then Found (113, -44, 154, -11)
              else if n = ''India'' then Found (68, 8, 97, 36)
              else No_rows))) \<and>
   list_all (\<lambda>f. valid_viewport (viewport f))
     (new_frames \<lparr>frame_count = 0, rng_pos = 0, frames = []\<rparr>
        (zoom_phase (\<lambda>k. real (k mod 4) / 4) 25 [-170, 170, -55, 85] [0, 10, 0, 20] []
           ''Scanning: A'' \<lparr>frame_count = 0, rng_pos = 0, frames = []\<rparr>)) \<and>
   list_all (\<lambda>f. valid_viewport (viewport f))
     (new_frames \<lparr>frame_count = 0, rng_pos = 0, frames = []\<rparr>
        (hold_phase (\<lambda>k. real (k mod 4) / 4) 45 [0, 10, 0, 20] [''A'']
           ''TARGET LOCKED: A'' (8 / 10) \<lparr>frame_count = 0, rng_pos = 0, frames = []\<rparr>))"
proof -
  let ?tm = "\<lparr>intro_frames = 1, zoom_frames = 2, hold_frames = 2, outro_frames = 1, shake = 8 / 10\<rparr>"
  let ?rnd = "\<lambda>k::nat. real (k mod 4) / 4"
  let ?w1 = "\<lambda>n. if n = ''A'' then Found (0, 0, 10, 10)
                else if n = ''B'' then Found (20, 5, 40, 30) else No_rows"
  let ?w2 = "\<lambda>n. if n = ''United States of America'' then Found (-172, 19, -67, 71)
              else if n = ''Russia'' then Found (-180, 41, 180, 81)
              else if n = ''Brazil'' then Found (-74, -34, -35, 5)
              else if n = ''Australia'' then Found (113, -44, 154, -11)
              else if n = ''India'' then Found (68, 8, 97, 36)
              else No_rows"
  let ?st = "\<lparr>frame_count = 0, rng_pos = 0, frames = []\<rparr>"
  have va: "valid_viewport [-170, 170, -55, 85] \<and> valid_viewport [0, 10, 0, 20]"
    by (simp add: valid_viewport_def)
  have h1: "\<forall>x \<in> set [''A'', ''B'']. valid_region (get_target_bounds ?w1 x 15)"
    by (simp add: get_target_bounds_def valid_viewport_def wider_than_def Let_def)
  have h2: "\<forall>name minx miny maxx maxy.
      ?w2 name = Found (minx, miny, maxx, maxy) \<longrightarrow> minx \<le> maxx \<and> miny \<le> maxy"
    by (simp split: if_splits)
  have c1: "\<forall>f \<in> set (saved (animation_sequence ?tm ?rnd ?w1 [''A'', ''B''])).
      valid_viewport (viewport f)"
    using emitted_viewports_valid
      [where countries = "[''A'', ''B'']" and world = ?w1 and tm = ?tm and rnd = ?rnd,
        THEN conjunct2, THEN conjunct2, THEN conjunct1, THEN mp, OF h1] .
  have c2: "\<forall>f \<in> set (saved (create_video ?rnd ?w2)). valid_viewport (viewport f)"
    using emitted_viewports_valid
      [where world = ?w2 and rnd = ?rnd,
        THEN conjunct2, THEN conjunct2, THEN conjunct2, THEN mp, OF h2] .
  have c3: "\<forall>f \<in> set (new_frames ?st (zoom_phase ?rnd 25 [-170, 170, -55, 85] [0, 10, 0, 20] []
      ''Scanning: A'' ?st)). valid_viewport (viewport f)"
    using emitted_viewports_valid
      [where a = "[-170, 170, -55, 85]" and b = "[0, 10, 0, 20]" and st = ?st and rnd = ?rnd
         and n = 25 and hl = "[]" and cap = "''Scanning: A''", THEN conjunct1, THEN mp, OF va] .
  have vc: "valid_viewport [0, 10, 0, 20]" by (simp add: valid_viewport_def)
  have c4: "\<forall>f \<in> set (new_frames ?st (hold_phase ?rnd 45 [0, 10, 0, 20] [''A'']
      ''TARGET LOCKED: A'' (8 / 10) ?st)). valid_viewport (viewport f)"
    using emitted_viewports_valid
      [where c = "[0, 10, 0, 20]" and st = ?st and rnd = ?rnd
         and m = 45 and hl = "[''A'']" and cap = "''TARGET LOCKED: A''" and s = "8 / 10",
         THEN conjunct2, THEN conjunct1, THEN mp, OF vc] .
  show ?thesis
    using c1 c2 c3 c4 by (simp only: list_all_iff)
qed

end
